theory Spec2Isabelle
  imports Main "HOL-Library.Word"
begin

unbundle bit_operations_syntax

section \<open>Values of the host language\<close>

text \<open>
  The library is TypeScript. A \<^verbatim>\<open>number\<close> that holds an offset, a size or a count is
  modelled as an \<^typ>\<open>int\<close> (all of them stay far below \<open>2 ^ 53\<close>, where a double is exact),
  a \<^verbatim>\<open>Buffer\<close> as a list of bytes, a string as the list of its UTF-16 code units, a
  nullable number as an \<^typ>\<open>int option\<close>, and a \<^verbatim>\<open>Result<T, string>\<close> as a sum whose
  left summand is the error.
\<close>

type_synonym byte = "8 word"
type_synonym buffer = "byte list"
type_synonym jsstring = "nat list"

datatype error =
    Err string
  | ErrUnsupportedCompressionMethod int
  | ErrFileDataOverflowsBounds int int "int option"
  | ErrSizeMismatch int int
  | ErrInvalidCharacters jsstring
  | ErrAbsolutePath jsstring
  | ErrRelativePath jsstring
  | ErrTooManyBytes int int
  | ErrNotEnoughBytes int int
  | ErrCrc32 int int

type_synonym 'a result = "error + 'a"

text \<open>\<^verbatim>\<open>null\<close> used as a number is \<open>0\<close>.\<close>

definition num :: "int option \<Rightarrow> int" where
  "num v = (case v of None \<Rightarrow> 0 | Some n \<Rightarrow> n)"

text \<open>The remainder operator \<^verbatim>\<open>%\<close> truncates towards zero.\<close>

definition js_rem :: "int \<Rightarrow> int \<Rightarrow> int" where
  "js_rem a b = sgn a * (\<bar>a\<bar> mod \<bar>b\<bar>)"

text \<open>\<^verbatim>\<open>Math.ceil(a / b)\<close> and \<^verbatim>\<open>Math.floor(a / b)\<close> for a positive divisor.\<close>

definition ceil_div :: "int \<Rightarrow> int \<Rightarrow> int" where
  "ceil_div a b = - ((- a) div b)"

definition floor_div :: "int \<Rightarrow> int \<Rightarrow> int" where
  "floor_div a b = a div b"

text \<open>
  The bitwise operators work on the 32-bit signed image of their operands:
  \<^verbatim>\<open>a & b\<close> and \<^verbatim>\<open>a >> n\<close>.
\<close>

definition toInt32 :: "int \<Rightarrow> int" where
  "toInt32 a = signed_take_bit 31 a"

definition js_and :: "int \<Rightarrow> int \<Rightarrow> int" where
  "js_and a b = toInt32 a AND toInt32 b"

definition js_shr :: "int \<Rightarrow> nat \<Rightarrow> int" where
  "js_shr a n = drop_bit n (toInt32 a)"

subsection \<open>Reading little-endian integers from a buffer\<close>

text \<open>
  Every call site in the sources reads inside the buffer (the headers have fixed lengths
  and the variable parts are guarded by a length test first); outside the buffer the
  functions below read zero bytes.
\<close>

definition byteAt :: "buffer \<Rightarrow> nat \<Rightarrow> int" where
  "byteAt b i = (if i < length b then uint (b ! i) else 0)"

definition readUInt16LE :: "buffer \<Rightarrow> nat \<Rightarrow> int" where
  "readUInt16LE b i = byteAt b i + 256 * byteAt b (i + 1)"

definition readUInt32LE :: "buffer \<Rightarrow> nat \<Rightarrow> int" where
  "readUInt32LE b i =
     byteAt b i + 256 * byteAt b (i + 1) + 65536 * byteAt b (i + 2) + 16777216 * byteAt b (i + 3)"

definition FOUR_GIB :: int where
  "FOUR_GIB = 4294967296"

definition readUInt64LE :: "buffer \<Rightarrow> nat \<Rightarrow> int" where
  "readUInt64LE b i = readUInt32LE b (i + 4) * FOUR_GIB + readUInt32LE b i"

text \<open>\<^verbatim>\<open>buffer.subarray(start, end)\<close> for \<open>0 \<le> start\<close>.\<close>

definition subarray :: "buffer \<Rightarrow> nat \<Rightarrow> nat \<Rightarrow> buffer" where
  "subarray b s e = take (e - s) (drop s b)"

section \<open>Data model\<close>

record ExtraField =
  ef_id :: int
  ef_data :: buffer

datatype BufOrStr = Buf buffer | Str jsstring

fun len :: "BufOrStr \<Rightarrow> int" where
  "len (Buf b) = int (length b)"
| "len (Str s) = int (length s)"

text \<open>
  The fields shared by \<^verbatim>\<open>EntryProperties\<close> and \<^verbatim>\<open>Entry\<close>. The header offset is
  nullable because \<^verbatim>\<open>_readEntry\<close> can store the (nullable) file cursor in it.
\<close>

record EntryBase =
  filename :: BufOrStr
  compressedSize :: int
  uncompressedSize :: int
  uncompressedSizeIsCertain :: bool
  compressionMethod :: int
  fileHeaderOffset :: "int option"
  fileDataOffset :: "int option"
  e_isZip64 :: bool
  crc32 :: int
  lastModTime :: int
  lastModDate :: int
  e_comment :: BufOrStr
  extraFields :: "ExtraField list"
  versionMadeBy :: int
  versionNeededToExtract :: int
  generalPurposeBitFlag :: int
  internalFileAttributes :: int
  externalFileAttributes :: int
  filenameLength :: int

record EntryProperties = EntryBase +
  entryEnd :: int

text \<open>
  An \<^verbatim>\<open>Entry\<close> object: the properties without \<^verbatim>\<open>entryEnd\<close>, and \<^verbatim>\<open>_ref\<close>, the weak
  reference under which the archive tracks it while its uncompressed size is uncertain.
  Entries are objects that the archive and the streams mutate, so they live in a store
  and are named by their index in it; a weak reference to an entry is that index.
\<close>

record Entry = EntryBase +
  ref :: "nat option"

datatype flag = Bool bool | Auto

record OpenReadStreamOptions =
  decompress :: "flag option"
  decrypt :: "flag option"
  validateCrc32 :: "flag option"
  start_opt :: "int option"
  end_opt :: "int option"

section \<open>Constants\<close>

definition EOCDR_WITHOUT_COMMENT_SIZE :: int where
  "EOCDR_WITHOUT_COMMENT_SIZE = 22"

definition MAX_EOCDR_COMMENT_SIZE :: int where
  "MAX_EOCDR_COMMENT_SIZE = 65535"

definition MAC_CDH_EXTRA_FIELD_ID :: int where
  "MAC_CDH_EXTRA_FIELD_ID = 22613"

definition MAC_CDH_EXTRA_FIELD_LENGTH :: int where
  "MAC_CDH_EXTRA_FIELD_LENGTH = 8"

definition MAC_CDH_EXTRA_FIELDS_LENGTH :: int where
  "MAC_CDH_EXTRA_FIELDS_LENGTH = MAC_CDH_EXTRA_FIELD_LENGTH + 4"

definition MAC_LFH_EXTRA_FIELDS_LENGTH :: int where
  "MAC_LFH_EXTRA_FIELDS_LENGTH = 16"

definition CDH_MIN_LENGTH :: int where
  "CDH_MIN_LENGTH = 46"

definition CDH_MAX_LENGTH :: int where
  "CDH_MAX_LENGTH = CDH_MIN_LENGTH + 65535 * 3"

definition CDH_MAX_LENGTH_MAC :: int where
  "CDH_MAX_LENGTH_MAC = CDH_MIN_LENGTH + (65535 + MAC_CDH_EXTRA_FIELDS_LENGTH)"

section \<open>Entries\<close>

subsection \<open>DOS date and time\<close>

text \<open>
  \<^verbatim>\<open>dosDateTimeToDate\<close> hands seven components to \<^verbatim>\<open>Date.UTC\<close>; the model returns
  them, in the order of that call.
\<close>

record UtcDate =
  utc_year :: int
  utc_month :: int
  utc_day :: int
  utc_hour :: int
  utc_minute :: int
  utc_second :: int
  utc_millisecond :: int

definition dosDateTimeToDate :: "int \<Rightarrow> int \<Rightarrow> UtcDate" where
  "dosDateTimeToDate date time =
     (let day = js_and date 0x1F;
          month = js_and (js_shr date 5) 0xF - 1;
          year = js_and (js_shr date 9) 0x7F + 1980;
          millisecond = 0;
          second = js_and time 0x1F * 2;
          minute = js_and (js_shr time 5) 0x3F;
          hour = js_and (js_shr time 11) 0x1F
      in \<lparr>utc_year = year, utc_month = month, utc_day = day, utc_hour = hour,
          utc_minute = minute, utc_second = second, utc_millisecond = millisecond\<rparr>)"

definition getLastModified :: "'a EntryBase_scheme \<Rightarrow> UtcDate" where
  "getLastModified e = dosDateTimeToDate (lastModDate e) (lastModTime e)"

definition isEncrypted :: "'a EntryBase_scheme \<Rightarrow> bool" where
  "isEncrypted e = (js_and (generalPurposeBitFlag e) 0x1 \<noteq> 0)"

definition isCompressed :: "'a EntryBase_scheme \<Rightarrow> bool" where
  "isCompressed e = (compressionMethod e \<noteq> 0)"

subsection \<open>The Mac OS Archive Utility signature of an entry\<close>

text \<open>\<^verbatim>\<open>filename.at(-1) === 47\<close>: a string's last element is never the number 47.\<close>

fun endsWithSlash :: "BufOrStr \<Rightarrow> bool" where
  "endsWithSlash (Buf b) = (b \<noteq> [] \<and> last b = 47)"
| "endsWithSlash (Str s) = False"

definition entryMaybeMac :: "'a EntryBase_scheme \<Rightarrow> bool" where
  "entryMaybeMac entry =
     (if versionMadeBy entry \<noteq> 789 then False
      else if len (e_comment entry) > 0 then False
      else if e_isZip64 entry then False
      else
        let check_extra =
              (if length (extraFields entry) \<noteq> 1
                  \<or> ef_id (extraFields entry ! 0) \<noteq> MAC_CDH_EXTRA_FIELD_ID
                  \<or> int (length (ef_data (extraFields entry ! 0))) \<noteq> MAC_CDH_EXTRA_FIELD_LENGTH
               then False else True)
        in
        if versionNeededToExtract entry = 20 then
          (if generalPurposeBitFlag entry \<noteq> 8 \<or> compressionMethod entry \<noteq> 8
              \<or> endsWithSlash (filename entry)
           then False else check_extra)
        else if versionNeededToExtract entry = 10 then
          (if generalPurposeBitFlag entry \<noteq> 0 \<or> compressionMethod entry \<noteq> 0
              \<or> uncompressedSize entry \<noteq> compressedSize entry
           then False
           else if length (extraFields entry) = 0 then
             (if compressedSize entry = 0 \<or> endsWithSlash (filename entry) then False else True)
           else if compressedSize entry \<noteq> 0 \<or> crc32 entry \<noteq> 0 then False
           else check_extra)
        else False)"

definition firstEntryMaybeMac :: "'a EntryBase_scheme \<Rightarrow> bool" where
  "firstEntryMaybeMac entry =
     (if fileHeaderOffset entry \<noteq> Some 0 then False else entryMaybeMac entry)"

section \<open>Reader\<close>

text \<open>
  The reader is the \<^verbatim>\<open>BufferReader\<close> subclass: its bytes are a buffer. \<open>streamEnded\<close>
  holds, for every stream that \<^verbatim>\<open>createReadStream\<close> returned with listeners attached, the
  \<^verbatim>\<open>isEnded\<close> variable that its \<^verbatim>\<open>onEnd\<close> closure captured; a stream is named by its
  index there. \<open>pendingReads\<close> counts the calls of \<^verbatim>\<open>read\<close> that are suspended at
  \<^verbatim>\<open>await this._read(...)\<close>.
\<close>

record Reader =
  r_isOpen :: bool
  readCount :: int
  r_buffer :: buffer
  streamEnded :: "bool list"
  pendingReads :: nat

record Stream =
  stream_id :: "nat option"
  stream_data :: buffer

definition Reader_new :: "buffer \<Rightarrow> Reader" where
  "Reader_new b = \<lparr>r_isOpen = False, readCount = 0, r_buffer = b, streamEnded = [], pendingReads = 0\<rparr>"

definition reader_open :: "Reader \<Rightarrow> unit result \<times> Reader" where
  "reader_open r = (if r_isOpen r then (Inr (), r) else (Inr (), r\<lparr>r_isOpen := True\<rparr>))"

definition bufferReader_read :: "Reader \<Rightarrow> int \<Rightarrow> int \<Rightarrow> buffer result" where
  "bufferReader_read r start length' =
     (let end' = start + length' in
      if end' > int (length (r_buffer r)) then Inl (Err ''Cannot read beyond end of buffer'')
      else Inr (subarray (r_buffer r) (nat start) (nat end')))"

definition bufferReader_createReadStream :: "Reader \<Rightarrow> int \<Rightarrow> int \<Rightarrow> buffer result" where
  "bufferReader_createReadStream r start length' =
     (let end' = start + length' in
      if end' > int (length (r_buffer r)) then Inl (Err ''Cannot read beyond end of buffer'')
      else Inr (subarray (r_buffer r) (nat start) (nat end')))"

text \<open>
  \<^verbatim>\<open>read\<close> from its call to the settling of its promise, with nothing in between: the
  counter goes up and down again, so the reader is left as it was.
\<close>

definition reader_read :: "Reader \<Rightarrow> int \<Rightarrow> int \<Rightarrow> buffer result" where
  "reader_read r start length' =
     (if \<not> r_isOpen r then Inl (Err ''Cannot call `read()` on a reader which is not open'')
      else if length' = 0 then Inr []
      else bufferReader_read r start length')"

text \<open>The two halves of \<^verbatim>\<open>read\<close>, before and after the suspension.\<close>

definition read_begin :: "int \<Rightarrow> int \<Rightarrow> Reader \<Rightarrow> Reader" where
  "read_begin start length' r =
     (if \<not> r_isOpen r then r
      else if length' = 0 then r
      else r\<lparr>readCount := readCount r + 1, pendingReads := pendingReads r + 1\<rparr>)"

definition read_settle :: "Reader \<Rightarrow> Reader" where
  "read_settle r =
     (if pendingReads r = 0 then r
      else r\<lparr>readCount := readCount r - 1, pendingReads := pendingReads r - 1\<rparr>)"

definition createReadStream :: "int \<Rightarrow> int \<Rightarrow> Reader \<Rightarrow> Stream result \<times> Reader" where
  "createReadStream start length' r =
     (if \<not> (0 \<le> start) then (Inl (Err ''`start` must be a positive integer or zero''), r)
      else if \<not> (0 \<le> length') then (Inl (Err ''`length` must be a positive integer or zero''), r)
      else if \<not> r_isOpen r then
        (Inl (Err ''Cannot call `createReadStream()` on a reader which is not open''), r)
      else if length' = 0 then (Inr \<lparr>stream_id = None, stream_data = []\<rparr>, r)
      else
        let r1 = r\<lparr>readCount := readCount r + 1\<rparr> in
        case bufferReader_createReadStream r1 start length' of
          Inl e \<Rightarrow> (Inl e, r1\<lparr>readCount := readCount r1 - 1\<rparr>)
        | Inr d \<Rightarrow>
            (Inr \<lparr>stream_id = Some (length (streamEnded r1)), stream_data = d\<rparr>,
             r1\<lparr>streamEnded := streamEnded r1 @ [False]\<rparr>))"

text \<open>The listener \<^verbatim>\<open>onEnd\<close> of stream \<open>sid\<close>, attached to three events.\<close>

definition onEnd :: "nat \<Rightarrow> Reader \<Rightarrow> Reader" where
  "onEnd sid r =
     (if \<not> sid < length (streamEnded r) then r
      else if streamEnded r ! sid then r
      else r\<lparr>streamEnded := (streamEnded r)[sid := True], readCount := readCount r - 1\<rparr>)"

datatype stream_event = End | Error | Close

fun emit :: "Stream \<Rightarrow> stream_event \<Rightarrow> Reader \<Rightarrow> Reader" where
  "emit s ev r = (case stream_id s of None \<Rightarrow> r | Some sid \<Rightarrow> onEnd sid r)"

text \<open>What can happen to a reader between two of its own steps.\<close>

datatype reader_op =
    OpCreateReadStream int int
  | OpEmit nat stream_event
  | OpReadBegin int int
  | OpReadSettle

fun reader_step :: "Reader \<Rightarrow> reader_op \<Rightarrow> Reader" where
  "reader_step r (OpCreateReadStream start length') = snd (createReadStream start length' r)"
| "reader_step r (OpEmit sid ev) = onEnd sid r"
| "reader_step r (OpReadBegin start length') = read_begin start length' r"
| "reader_step r OpReadSettle = read_settle r"

definition reader_run :: "reader_op list \<Rightarrow> Reader \<Rightarrow> Reader" where
  "reader_run ops r = foldl reader_step r ops"

text \<open>
  \<^verbatim>\<open>close\<close>: when reads are in progress it yields once, and \<open>during\<close> is what the other
  tasks do to the reader meanwhile. \<^verbatim>\<open>_close\<close> of a \<^verbatim>\<open>BufferReader\<close> is the default one.
\<close>

definition reader_close :: "reader_op list \<Rightarrow> Reader \<Rightarrow> unit result \<times> Reader" where
  "reader_close during r =
     (if \<not> r_isOpen r then (Inr (), r)
      else
        let r1 = (if readCount r \<noteq> 0 then reader_run during r else r) in
        if readCount r1 \<noteq> 0 then (Inl (Err ''Cannot close while reading in progress''), r1)
        else (Inr (), r1\<lparr>r_isOpen := False\<rparr>))"

section \<open>The archive\<close>

text \<open>
  \<open>entries\<close> is the store of the \<^verbatim>\<open>Entry\<close> objects this archive has created;
  \<^verbatim>\<open>_uncertainUncompressedSizeEntryRefs\<close> is a set in insertion order, held as a list of
  indices into the store. Garbage collection of entries is not modelled.
\<close>

record Zip =
  reader :: Reader
  z_size :: int
  decodeStrings :: bool
  validateEntrySizes :: bool
  validateFilenames :: bool
  strictFilenames :: bool
  supportMacArchive :: bool
  isZip64 :: "bool option"
  entryCount :: "int option"
  entryCountIsCertain :: bool
  footerOffset :: "int option"
  centralDirectoryOffset :: "int option"
  centralDirectorySize :: "int option"
  centralDirectorySizeIsCertain :: bool
  comment :: "BufOrStr option"
  numEntriesRead :: int
  isMacArchive :: bool
  isMaybeMacArchive :: bool
  compressedSizesAreCertain :: bool
  uncompressedSizesAreCertain :: bool
  isReading :: bool
  entryCursor :: "int option"
  fileCursor :: "int option"
  uncertainUncompressedSizeEntryRefs :: "nat list option"
  firstEntryProps :: "EntryProperties option"
  entries :: "Entry list"

record ZipOptions =
  o_decodeStrings :: bool
  o_validateEntrySizes :: bool
  o_validateFilenames :: bool
  o_strictFilenames :: bool
  o_supportMacArchive :: bool

definition Zip_new :: "Reader \<Rightarrow> int \<Rightarrow> ZipOptions \<Rightarrow> Zip" where
  "Zip_new rd sz options =
     \<lparr>reader = rd, z_size = sz,
      decodeStrings = o_decodeStrings options,
      validateEntrySizes = o_validateEntrySizes options,
      validateFilenames = o_validateFilenames options,
      strictFilenames = o_strictFilenames options,
      supportMacArchive = o_supportMacArchive options,
      isZip64 = None, entryCount = None, entryCountIsCertain = True,
      footerOffset = None, centralDirectoryOffset = None, centralDirectorySize = None,
      centralDirectorySizeIsCertain = True, comment = None, numEntriesRead = 0,
      isMacArchive = False, isMaybeMacArchive = False,
      compressedSizesAreCertain = True, uncompressedSizesAreCertain = True,
      isReading = False, entryCursor = None, fileCursor = None,
      uncertainUncompressedSizeEntryRefs = None, firstEntryProps = None, entries = []\<rparr>"

subsection \<open>Entry count\<close>

definition entryCountIsCertain_fn :: "int \<Rightarrow> int \<Rightarrow> bool" where
  "entryCountIsCertain_fn entryCount' centralDirectorySize' =
     ((entryCount' + 65536) * CDH_MIN_LENGTH > centralDirectorySize')"

definition recalculateEntryCount :: "int \<Rightarrow> int \<Rightarrow> Zip \<Rightarrow> bool \<times> Zip" where
  "recalculateEntryCount numEntriesRead' entryCursor' z =
     (let numEntriesRemaining = num (entryCount z) - numEntriesRead';
          centralDirectoryRemaining =
            num (centralDirectoryOffset z) + num (centralDirectorySize z) - entryCursor';
          entryMaxLength = (if isMacArchive z then CDH_MAX_LENGTH_MAC else CDH_MAX_LENGTH)
      in
      if numEntriesRemaining * entryMaxLength \<ge> centralDirectoryRemaining then (False, z)
      else
        let minEntriesRemaining = ceil_div centralDirectoryRemaining CDH_MAX_LENGTH_MAC
        in (True,
            z\<lparr>entryCount :=
                Some (num (entryCount z)
                      + js_and (minEntriesRemaining - numEntriesRemaining + 65535) 65536)\<rparr>))"

definition recalculateEntryCountIsCertain :: "int \<Rightarrow> int \<Rightarrow> Zip \<Rightarrow> Zip" where
  "recalculateEntryCountIsCertain numEntriesRead' entryCursor' z =
     (let numEntriesRemaining = num (entryCount z) - numEntriesRead';
          centralDirectoryRemaining =
            num (centralDirectoryOffset z) + num (centralDirectorySize z) - entryCursor'
      in
      if entryCountIsCertain_fn numEntriesRemaining centralDirectoryRemaining
      then z\<lparr>entryCountIsCertain := True\<rparr> else z)"

subsection \<open>Resolving the Mac state\<close>

definition clearRef :: "nat \<Rightarrow> Entry list \<Rightarrow> Entry list" where
  "clearRef i es = (if i < length es then es[i := (es ! i)\<lparr>ref := None\<rparr>] else es)"

definition clearRefCertain :: "nat \<Rightarrow> Entry list \<Rightarrow> Entry list" where
  "clearRefCertain i es =
     (if i < length es
      then es[i := (es ! i)\<lparr>ref := None, uncompressedSizeIsCertain := True\<rparr>] else es)"

definition setAsMacArchive :: "int \<Rightarrow> int \<Rightarrow> Zip \<Rightarrow> Zip" where
  "setAsMacArchive numEntriesRead' entryCursor' z =
     (let z1 = z\<lparr>isMacArchive := True, isMaybeMacArchive := False\<rparr>;
          z2 = (if \<not> centralDirectorySizeIsCertain z1
                then z1\<lparr>centralDirectorySize :=
                          Some (num (footerOffset z1) - num (centralDirectoryOffset z1)),
                        centralDirectorySizeIsCertain := True\<rparr>
                else z1);
          z3 = (if \<not> entryCountIsCertain z2
                then recalculateEntryCountIsCertain numEntriesRead' entryCursor'
                       (snd (recalculateEntryCount numEntriesRead' entryCursor' z2))
                else z2);
          z4 = (case uncertainUncompressedSizeEntryRefs z3 of
                  None \<Rightarrow> z3
                | Some references \<Rightarrow> z3\<lparr>entries := fold clearRef references (entries z3)\<rparr>)
      in z4\<lparr>uncertainUncompressedSizeEntryRefs := None\<rparr>)"

definition setAsNotMacArchive :: "Zip \<Rightarrow> Zip" where
  "setAsNotMacArchive z =
     (let z1 = z\<lparr>isMaybeMacArchive := False, entryCountIsCertain := True,
                 centralDirectorySizeIsCertain := True, compressedSizesAreCertain := True,
                 uncompressedSizesAreCertain := True, fileCursor := None\<rparr>;
          z2 = (case uncertainUncompressedSizeEntryRefs z1 of
                  None \<Rightarrow> z1
                | Some references \<Rightarrow> z1\<lparr>entries := fold clearRefCertain references (entries z1)\<rparr>)
      in z2\<lparr>uncertainUncompressedSizeEntryRefs := None\<rparr>)"

section \<open>Opening the stream of an entry\<close>

text \<open>
  The options of \<^verbatim>\<open>openReadStream\<close> as the method settles them, before any read: the
  variables \<^verbatim>\<open>decompress\<close>, \<^verbatim>\<open>decrypt\<close>, \<^verbatim>\<open>validateCrc32\<close>, \<^verbatim>\<open>start\<close> and \<^verbatim>\<open>end\<close>.
  An option that is absent or \<^verbatim>\<open>'auto'\<close> is not a boolean. Numbers given for
  \<^verbatim>\<open>start\<close> and \<^verbatim>\<open>end\<close> are integers here, so \<^verbatim>\<open>isPositiveInteger\<close> is \<open>0 < n\<close> and
  \<^verbatim>\<open>isPositiveIntegerOrZero\<close> is \<open>0 \<le> n\<close>.
\<close>

record Settings =
  s_decompress :: bool
  s_decrypt :: bool
  s_validateCrc32 :: bool
  s_start :: int
  s_end :: int

definition options_decompress :: "'a EntryBase_scheme \<Rightarrow> OpenReadStreamOptions \<Rightarrow> bool" where
  "options_decompress this options =
     (case decompress options of
        Some (Bool b) \<Rightarrow> b \<and> isCompressed this
      | _ \<Rightarrow> isCompressed this)"

definition options_decrypt :: "'a EntryBase_scheme \<Rightarrow> OpenReadStreamOptions \<Rightarrow> bool" where
  "options_decrypt this options =
     (case decrypt options of
        Some (Bool b) \<Rightarrow> b \<and> isEncrypted this
      | _ \<Rightarrow> isEncrypted this)"

definition options_validateCrc32 :: "bool \<Rightarrow> OpenReadStreamOptions \<Rightarrow> bool result" where
  "options_validateCrc32 decompress' options =
     (case validateCrc32 options of
        Some (Bool b) \<Rightarrow>
          if b \<and> decompress' then Inl (Err ''Cannot validate CRC32 for uncompressed data'')
          else Inr b
      | _ \<Rightarrow> Inr (\<not> decompress'))"

definition options_start ::
  "'a EntryBase_scheme \<Rightarrow> bool \<Rightarrow> bool \<Rightarrow> OpenReadStreamOptions \<Rightarrow> int result" where
  "options_start this decompress' validateCrc32' options =
     (case start_opt options of
        Some start \<Rightarrow>
          if start \<noteq> 0 then
            if \<not> 0 < start then Inl (Err ''`options.start` must be a positive integer if provided'')
            else if decompress' then Inl (Err ''Cannot stream a section of file if decompressing'')
            else if validateCrc32' then Inl (Err ''Cannot validate CRC32 for a section of file'')
            else if start > compressedSize this then Inl (Err ''`start` is after end of file data'')
            else Inr start
          else Inr start
      | None \<Rightarrow> Inr 0)"

definition options_end ::
  "'a EntryBase_scheme \<Rightarrow> bool \<Rightarrow> bool \<Rightarrow> int \<Rightarrow> OpenReadStreamOptions \<Rightarrow> int result" where
  "options_end this decompress' validateCrc32' start options =
     (case end_opt options of
        Some end' \<Rightarrow>
          if \<not> 0 \<le> end' then Inl (Err ''`options.end` must be a positive integer if provided'')
          else if decompress' then Inl (Err ''Cannot stream a section of file if decompressing'')
          else if validateCrc32' then Inl (Err ''Cannot validate CRC32 for a section of file'')
          else if end' > compressedSize this then Inl (Err ''`end` is after end of file data'')
          else if end' < start then Inl (Err ''`end` is before `start`'')
          else Inr end'
      | None \<Rightarrow> Inr (compressedSize this))"

definition openReadStream_options ::
  "'a EntryBase_scheme \<Rightarrow> OpenReadStreamOptions option \<Rightarrow> Settings result" where
  "openReadStream_options this options' =
     (case options' of
        Some options \<Rightarrow>
          (let decompress' = options_decompress this options;
               decrypt' = options_decrypt this options
           in case options_validateCrc32 decompress' options of
                Inl e \<Rightarrow> Inl e
              | Inr validateCrc32' \<Rightarrow>
                  (case options_start this decompress' validateCrc32' options of
                     Inl e \<Rightarrow> Inl e
                   | Inr start \<Rightarrow>
                       (case options_end this decompress' validateCrc32' start options of
                          Inl e \<Rightarrow> Inl e
                        | Inr end' \<Rightarrow>
                            Inr \<lparr>s_decompress = decompress', s_decrypt = decrypt',
                                 s_validateCrc32 = validateCrc32', s_start = start,
                                 s_end = end'\<rparr>)))
      | None \<Rightarrow>
          Inr \<lparr>s_decompress = isCompressed this, s_decrypt = isEncrypted this,
               s_validateCrc32 = True, s_start = 0, s_end = compressedSize this\<rparr>)"

text \<open>The rejections that follow, still before any read.\<close>

definition openReadStream_check :: "'a EntryBase_scheme \<Rightarrow> Settings \<Rightarrow> unit result" where
  "openReadStream_check this s =
     (if s_decrypt s then Inl (Err ''Decryption is not supported'')
      else if s_decompress s \<and> compressionMethod this \<noteq> 8
        then Inl (ErrUnsupportedCompressionMethod (compressionMethod this))
      else if s_decompress s \<and> isEncrypted this then Inl (Err ''Cannot decompress encrypted data'')
      else if s_validateCrc32 s \<and> isEncrypted this
        then Inl (Err ''Cannot validate CRC32 of encrypted data'')
      else Inr ())"

text \<open>
  The stream that \<^verbatim>\<open>openReadStream\<close> returns: the reader's stream and the transforms
  piped after it, in order.
\<close>

datatype stage = InflateRaw | ValidateUncompressedSize nat | ValidateCrc32 int

record OpenedStream =
  os_source :: Stream
  os_stages :: "stage list"

definition pipeline_stages :: "nat \<Rightarrow> Entry \<Rightarrow> Settings \<Rightarrow> Zip \<Rightarrow> stage list" where
  "pipeline_stages i this s z =
     (if s_decompress s
      then InflateRaw # (if validateEntrySizes z then [ValidateUncompressedSize i] else [])
      else [])
     @ (if s_validateCrc32 s then [ValidateCrc32 (crc32 this)] else [])"

text \<open>
  \<^verbatim>\<open>Entry.openReadStream\<close> on the entry at index \<open>i\<close> of the store. The size, the CRC32 and
  the extra fields of the entry are read from \<open>this\<close>, its value at the call: nothing
  in between writes them. \<open>openReadStream_data\<close> is the part of the method that follows
  the check of the signature of the local file header in \<open>buffer\<close>.
\<close>

definition openReadStream_data ::
  "nat \<Rightarrow> Entry \<Rightarrow> Settings \<Rightarrow> buffer \<Rightarrow> Zip \<Rightarrow> OpenedStream result \<times> Zip" where
  "openReadStream_data i this s buffer z =
     (let localCrc32 = readUInt32LE buffer 14;
          localCompressedSize = readUInt32LE buffer 18;
          localUncompressedSize = readUInt32LE buffer 22;
          filenameLength' = readUInt16LE buffer 26;
          extraFieldsLength = readUInt16LE buffer 28;
          fileDataOffset' = num (fileHeaderOffset this) + 30 + filenameLength' + extraFieldsLength;
          z1 = z\<lparr>entries := (entries z)[i := this\<lparr>fileDataOffset := Some fileDataOffset'\<rparr>]\<rparr>;
          matchesMacSignature =
            (localCrc32 = 0 \<and> localCompressedSize = 0 \<and> localUncompressedSize = 0
             \<and> filenameLength' = filenameLength this
             \<and> extraFieldsLength = int (length (extraFields this)) * MAC_LFH_EXTRA_FIELDS_LENGTH)
      in
      if isMacArchive z1 \<and> \<not> matchesMacSignature
      then (Inl (Err ''Misidentified Mac OS Archive Utility ZIP''), z1)
      else
        let z2 = (if \<not> isMacArchive z1 \<and> isMaybeMacArchive z1 \<and> \<not> matchesMacSignature
                  then setAsNotMacArchive z1 else z1)
        in
        if compressedSize this \<noteq> 0 \<and> fileDataOffset' + compressedSize this > num (footerOffset z2)
        then (Inl (ErrFileDataOverflowsBounds fileDataOffset' (compressedSize this) (footerOffset z2)), z2)
        else
          let streamResult =
                createReadStream (fileDataOffset' + s_start s) (s_end s - s_start s) (reader z2);
              z3 = z2\<lparr>reader := snd streamResult\<rparr>
          in (case fst streamResult of
                Inl e \<Rightarrow> (Inl e, z3)
              | Inr stream \<Rightarrow>
                  (Inr \<lparr>os_source = stream, os_stages = pipeline_stages i this s z3\<rparr>, z3)))"

definition openReadStream ::
  "nat \<Rightarrow> OpenReadStreamOptions option \<Rightarrow> Zip \<Rightarrow> OpenedStream result \<times> Zip" where
  "openReadStream i options z =
     (let this = entries z ! i in
      case openReadStream_options this options of
        Inl e \<Rightarrow> (Inl e, z)
      | Inr s \<Rightarrow>
     (case openReadStream_check this s of
        Inl e \<Rightarrow> (Inl e, z)
      | Inr _ \<Rightarrow>
     (case reader_read (reader z) (num (fileHeaderOffset this)) 30 of
        Inl e \<Rightarrow> (Inl e, z)
      | Inr buffer \<Rightarrow>
          if readUInt32LE buffer 0 \<noteq> 0x04034B50
          then (Inl (Err ''Invalid Local File Header signature''), z)
          else openReadStream_data i this s buffer z)))"

subsection \<open>The validating transforms\<close>

record ValidateUncompressedSizeStream =
  byteCount :: int
  expectedByteCount :: int
  vs_entry :: nat

definition ValidateUncompressedSizeStream_new :: "nat \<Rightarrow> Zip \<Rightarrow> ValidateUncompressedSizeStream" where
  "ValidateUncompressedSizeStream_new i z =
     \<lparr>byteCount = 0, expectedByteCount = uncompressedSize (entries z ! i), vs_entry = i\<rparr>"

text \<open>\<^verbatim>\<open>_transform\<close> for a chunk of the given length.\<close>

definition vus_transform ::
  "int \<Rightarrow> ValidateUncompressedSizeStream \<Rightarrow> Zip
   \<Rightarrow> unit result \<times> ValidateUncompressedSizeStream \<times> Zip" where
  "vus_transform chunkLength vs z =
     (let i = vs_entry vs;
          vs1 = vs\<lparr>byteCount := byteCount vs + chunkLength\<rparr>
      in
      if byteCount vs1 > expectedByteCount vs1 then
        if uncompressedSizeIsCertain (entries z ! i) then
          (Inl (ErrTooManyBytes (expectedByteCount vs1) (byteCount vs1)), vs1, z)
        else if uncompressedSize (entries z ! i) = expectedByteCount vs1 then
          let vs2 = vs1\<lparr>expectedByteCount := expectedByteCount vs1 + FOUR_GIB\<rparr>;
              z1 = z\<lparr>entries :=
                     (entries z)[i := (entries z ! i)\<lparr>uncompressedSize := expectedByteCount vs2\<rparr>]\<rparr>
          in
          if \<not> isMacArchive z1 then
            if \<not> isMaybeMacArchive z1 then
              (Inl (Err ''Logic failure. Please raise an issue.''), vs2, z1)
            else (Inr (), vs2, setAsMacArchive (numEntriesRead z1) (num (entryCursor z1)) z1)
          else (Inr (), vs2, z1)
        else (Inr (), vs1\<lparr>expectedByteCount := uncompressedSize (entries z ! i)\<rparr>, z)
      else (Inr (), vs1, z))"

definition vus_flush ::
  "ValidateUncompressedSizeStream \<Rightarrow> Zip \<Rightarrow> unit result \<times> ValidateUncompressedSizeStream \<times> Zip" where
  "vus_flush vs z =
     (let i = vs_entry vs in
      if byteCount vs < expectedByteCount vs
      then (Inl (ErrNotEnoughBytes (expectedByteCount vs) (byteCount vs)), vs, z)
      else if \<not> uncompressedSizeIsCertain (entries z ! i) then
        let e1 = (entries z ! i)\<lparr>uncompressedSizeIsCertain := True\<rparr> in
        (case ref e1 of
           Some reference \<Rightarrow>
             (Inr (), vs,
              z\<lparr>entries := (entries z)[i := e1\<lparr>ref := None\<rparr>],
                uncertainUncompressedSizeEntryRefs :=
                  map_option (removeAll reference) (uncertainUncompressedSizeEntryRefs z)\<rparr>)
         | None \<Rightarrow> (Inr (), vs, z\<lparr>entries := (entries z)[i := e1]\<rparr>))
      else (Inr (), vs, z))"

text \<open>
  The CRC32 transform; the checksum primitive \<^verbatim>\<open>crc32\<close> of \<^verbatim>\<open>node:zlib\<close> is a
  parameter.
\<close>

record ValidateCrc32Stream =
  vc_crc32 :: int
  expectedCrc32 :: int

definition ValidateCrc32Stream_new :: "int \<Rightarrow> ValidateCrc32Stream" where
  "ValidateCrc32Stream_new c = \<lparr>vc_crc32 = 0, expectedCrc32 = c\<rparr>"

definition vc_transform ::
  "(BufOrStr \<Rightarrow> int \<Rightarrow> int) \<Rightarrow> buffer \<Rightarrow> ValidateCrc32Stream \<Rightarrow> ValidateCrc32Stream" where
  "vc_transform crc chunk vc = vc\<lparr>vc_crc32 := crc (Buf chunk) (vc_crc32 vc)\<rparr>"

definition vc_flush :: "ValidateCrc32Stream \<Rightarrow> unit result" where
  "vc_flush vc =
     (if vc_crc32 vc = expectedCrc32 vc then Inr ()
      else Inl (ErrCrc32 (expectedCrc32 vc) (vc_crc32 vc)))"

section \<open>Locating the central directory\<close>

text \<open>
  Two functions that the archive calls are not part of the sources at hand: the text
  decoder \<^verbatim>\<open>decodeBuffer(buffer, start, isUtf8)\<close> and the checksum \<^verbatim>\<open>crc32(data, value)\<close>
  of \<^verbatim>\<open>node:zlib\<close>. They are parameters of the model.
\<close>

record Externals =
  decodeBuffer :: "buffer \<Rightarrow> nat \<Rightarrow> bool \<Rightarrow> jsstring"
  calculateCrc32 :: "BufOrStr \<Rightarrow> int \<Rightarrow> int"

subsection \<open>End of central directory record\<close>

definition eocdr_at :: "buffer \<Rightarrow> int \<Rightarrow> nat \<Rightarrow> bool" where
  "eocdr_at buffer bufferSize position =
     (if byteAt buffer position \<noteq> 0x50 then False
      else if readUInt32LE buffer position \<noteq> 0x06054B50 then False
      else readUInt16LE buffer (position + 20)
             = bufferSize - int position - EOCDR_WITHOUT_COMMENT_SIZE)"

text \<open>The loop of \<^verbatim>\<open>_locateEocdr\<close>, from \<open>position\<close> down to 0.\<close>

fun eocdr_scan :: "buffer \<Rightarrow> int \<Rightarrow> nat \<Rightarrow> nat option" where
  "eocdr_scan buffer bufferSize 0 = (if eocdr_at buffer bufferSize 0 then Some 0 else None)"
| "eocdr_scan buffer bufferSize (Suc position) =
     (if eocdr_at buffer bufferSize (Suc position) then Some (Suc position)
      else eocdr_scan buffer bufferSize position)"

definition locateEocdr :: "Zip \<Rightarrow> buffer result \<times> Zip" where
  "locateEocdr z =
     (if z_size z < EOCDR_WITHOUT_COMMENT_SIZE + MAX_EOCDR_COMMENT_SIZE
         \<and> z_size z < EOCDR_WITHOUT_COMMENT_SIZE
      then (Inl (Err ''End of Central Directory Record not found''), z)
      else
        let bufferSize =
              (if z_size z < EOCDR_WITHOUT_COMMENT_SIZE + MAX_EOCDR_COMMENT_SIZE then z_size z
               else EOCDR_WITHOUT_COMMENT_SIZE + MAX_EOCDR_COMMENT_SIZE);
            bufferOffset = z_size z - bufferSize
        in case reader_read (reader z) bufferOffset bufferSize of
             Inl e \<Rightarrow> (Inl e, z)
           | Inr buffer \<Rightarrow>
               (case eocdr_scan buffer bufferSize (nat (bufferSize - EOCDR_WITHOUT_COMMENT_SIZE)) of
                  Some position \<Rightarrow>
                    (Inr (drop position buffer),
                     z\<lparr>footerOffset := Some (bufferOffset + int position)\<rparr>)
                | None \<Rightarrow> (Inl (Err ''End of Central Directory Record not found''), z)))"

definition parseEocdr :: "Externals \<Rightarrow> buffer \<Rightarrow> Zip \<Rightarrow> unit result \<times> Zip" where
  "parseEocdr ext eocdrBuffer z =
     (let diskNumber = readUInt16LE eocdrBuffer 4 in
      if diskNumber \<noteq> 0 then (Inl (Err ''Multi-disk ZIP files are not supported''), z)
      else
        let z1 = z\<lparr>entryCount := Some (readUInt16LE eocdrBuffer 10),
                   centralDirectorySize := Some (readUInt32LE eocdrBuffer 12),
                   centralDirectoryOffset := Some (readUInt32LE eocdrBuffer 16),
                   comment := Some (if decodeStrings z
                                    then Str (decodeBuffer ext eocdrBuffer 22 False)
                                    else Buf (drop 22 eocdrBuffer))\<rparr>
        in (Inr (),
            z1\<lparr>isZip64 := Some (entryCount z1 = Some 0xFFFF
                                 \<or> centralDirectoryOffset z1 = Some 0xFFFFFFFF
                                 \<or> centralDirectorySize z1 = Some 0xFFFFFFFF)\<rparr>))"

definition parseZip64Eocdr :: "Zip \<Rightarrow> unit result \<times> Zip" where
  "parseZip64Eocdr z =
     (let zip64EocdlOffset = num (footerOffset z) - 20 in
      if zip64EocdlOffset < 0
      then (Inl (Err ''Cannot locate ZIP64 End of Central Directory Locator''), z)
      else
      case reader_read (reader z) zip64EocdlOffset 20 of
        Inl e \<Rightarrow> (Inl e, z)
      | Inr zip64EocdlBuffer \<Rightarrow>
      if readUInt32LE zip64EocdlBuffer 0 \<noteq> 0x07064B50 then
        (if supportMacArchive z then (Inr (), z\<lparr>isMacArchive := True\<rparr>)
         else (Inl (Err ''Invalid ZIP64 End of Central Directory Locator signature''), z))
      else
        let zip64EocdrOffset = readUInt64LE zip64EocdlBuffer 8 in
        if zip64EocdrOffset + 56 > zip64EocdlOffset
        then (Inl (Err ''Cannot locate ZIP64 End of Central Directory Record''), z)
        else
       (case reader_read (reader z) zip64EocdrOffset 56 of
          Inl e \<Rightarrow> (Inl e, z)
        | Inr zip64EocdrBuffer \<Rightarrow>
          if readUInt32LE zip64EocdrBuffer 0 \<noteq> 0x06064B50
          then (Inl (Err ''Invalid ZIP64 End of Central Directory Record signature''), z)
          else
            let zip64EocdrSize = readUInt64LE zip64EocdrBuffer 4 in
            if zip64EocdrOffset + zip64EocdrSize + 12 > zip64EocdlOffset
            then (Inl (Err ''Invalid ZIP64 End of Central Directory Record''), z)
            else
              let z1 = (if entryCount z = Some 0xFFFF
                        then z\<lparr>entryCount := Some (readUInt64LE zip64EocdrBuffer 32)\<rparr> else z);
                  z2 = (if centralDirectorySize z1 = Some 0xFFFFFFFF
                        then z1\<lparr>centralDirectorySize := Some (readUInt64LE zip64EocdrBuffer 40)\<rparr>
                        else z1);
                  z3 = (if centralDirectoryOffset z2 = Some 0xFFFFFFFF
                        then z2\<lparr>centralDirectoryOffset := Some (readUInt64LE zip64EocdrBuffer 48)\<rparr>
                        else z2)
              in (Inr (),
                  z3\<lparr>footerOffset :=
                       Some (if zip64EocdrOffset + zip64EocdrSize = zip64EocdlOffset
                             then zip64EocdrOffset else zip64EocdlOffset)\<rparr>)))"

subsection \<open>Central directory file headers\<close>

text \<open>
  The loop over the extra fields in \<^verbatim>\<open>_readEntryAt\<close>: \<open>i\<close> is the read position,
  \<open>acc\<close> the fields pushed so far and \<open>z64\<close> the data of the last field with id 1.
\<close>

function parseExtraFields ::
  "buffer \<Rightarrow> nat \<Rightarrow> ExtraField list \<Rightarrow> buffer option
   \<Rightarrow> (ExtraField list \<times> buffer option) result" where
  "parseExtraFields extraFieldBuffer i acc z64 =
     (if int i < int (length extraFieldBuffer) - 3 then
        let headerId = readUInt16LE extraFieldBuffer i;
            dataSize = readUInt16LE extraFieldBuffer (i + 2);
            dataStart = i + 4;
            dataEnd = dataStart + nat dataSize
        in
        if dataEnd > length extraFieldBuffer
        then Inl (Err ''Extra field length exceeds extra field buffer size'')
        else
          let dataBuffer = subarray extraFieldBuffer dataStart dataEnd in
          parseExtraFields extraFieldBuffer dataEnd
            (acc @ [\<lparr>ef_id = headerId, ef_data = dataBuffer\<rparr>])
            (if headerId = 1 then Some dataBuffer else z64)
      else Inr (acc, z64))"
  by pat_completeness auto
termination
  by (relation "measure (\<lambda>(b, i, acc, z64). length b - i)") auto

declare parseExtraFields.simps [simp del]

text \<open>The three optional 64-bit values of the ZIP64 extended information extra field.\<close>

definition applyZip64 ::
  "buffer \<Rightarrow> int \<Rightarrow> int \<Rightarrow> int \<Rightarrow> (int \<times> int \<times> int) result" where
  "applyZip64 zip64EiefBuffer uncompressedSize' compressedSize' fileHeaderOffset' =
     (let index0 = (0::nat) in
      if uncompressedSize' = 0xFFFFFFFF \<and> index0 + 8 > length zip64EiefBuffer
      then Inl (Err ''ZIP64 Extended Information Extra Field does not include uncompressed size'')
      else
        let u = (if uncompressedSize' = 0xFFFFFFFF then readUInt64LE zip64EiefBuffer index0
                 else uncompressedSize');
            index1 = (if uncompressedSize' = 0xFFFFFFFF then index0 + 8 else index0)
        in
        if compressedSize' = 0xFFFFFFFF \<and> index1 + 8 > length zip64EiefBuffer
        then Inl (Err ''ZIP64 Extended Information Extra Field does not include compressed size'')
        else
          let c = (if compressedSize' = 0xFFFFFFFF then readUInt64LE zip64EiefBuffer index1
                   else compressedSize');
              index2 = (if compressedSize' = 0xFFFFFFFF then index1 + 8 else index1)
          in
          if fileHeaderOffset' = 0xFFFFFFFF \<and> index2 + 8 > length zip64EiefBuffer
          then Inl (Err ''ZIP64 Extended Information Extra Field does not include relative header offset'')
          else
            Inr (u, c,
                 if fileHeaderOffset' = 0xFFFFFFFF then readUInt64LE zip64EiefBuffer index2
                 else fileHeaderOffset'))"

definition readEntryAt :: "Zip \<Rightarrow> int \<Rightarrow> EntryProperties option result" where
  "readEntryAt z offset =
     (if offset + CDH_MIN_LENGTH > num (footerOffset z)
      then Inl (Err ''Invalid Central Directory File Header'')
      else
      case reader_read (reader z) offset CDH_MIN_LENGTH of
        Inl e \<Rightarrow> Inl e
      | Inr entryBuffer \<Rightarrow>
      if readUInt32LE entryBuffer 0 \<noteq> 0x02014B50 then Inr None
      else
        let versionMadeBy' = readUInt16LE entryBuffer 4;
            versionNeededToExtract' = readUInt16LE entryBuffer 6;
            generalPurposeBitFlag' = readUInt16LE entryBuffer 8;
            compressionMethod' = readUInt16LE entryBuffer 10;
            lastModTime' = readUInt16LE entryBuffer 12;
            lastModDate' = readUInt16LE entryBuffer 14;
            crc32' = readUInt32LE entryBuffer 16;
            compressedSize0 = readUInt32LE entryBuffer 20;
            uncompressedSize0 = readUInt32LE entryBuffer 24;
            filenameLength' = readUInt16LE entryBuffer 28;
            extraFieldLength = readUInt16LE entryBuffer 30;
            commentLength = readUInt16LE entryBuffer 32;
            internalFileAttributes' = readUInt16LE entryBuffer 36;
            externalFileAttributes' = readUInt32LE entryBuffer 38;
            fileHeaderOffset0 = readUInt32LE entryBuffer 42
        in
        if js_and generalPurposeBitFlag' 0x40 \<noteq> 0
        then Inl (Err ''Strong encryption is not supported'')
        else
          let extraDataOffset = offset + CDH_MIN_LENGTH;
              extraDataSize = filenameLength' + extraFieldLength + commentLength;
              entryEnd' = extraDataOffset + extraDataSize
          in
          if entryEnd' > num (footerOffset z)
          then Inl (Err ''Invalid Central Directory File Header'')
          else
         (case reader_read (reader z) extraDataOffset extraDataSize of
            Inl e \<Rightarrow> Inl e
          | Inr extraBuffer \<Rightarrow>
            let filename' = subarray extraBuffer 0 (nat filenameLength');
                commentStart = filenameLength' + extraFieldLength;
                extraFieldBuffer = subarray extraBuffer (nat filenameLength') (nat commentStart)
            in
           (case parseExtraFields extraFieldBuffer 0 [] None of
              Inl e \<Rightarrow> Inl e
            | Inr (extraFields', zip64EiefBuffer) \<Rightarrow>
              let comment' = subarray extraBuffer (nat commentStart) (nat extraDataSize);
                  isZip64' = (uncompressedSize0 = 0xFFFFFFFF \<or> compressedSize0 = 0xFFFFFFFF
                              \<or> fileHeaderOffset0 = 0xFFFFFFFF);
                  sizes =
                    (if isZip64' then
                       (case zip64EiefBuffer of
                          None \<Rightarrow> Inl (Err ''Expected ZIP64 Extended Information Extra Field'')
                        | Some b \<Rightarrow> applyZip64 b uncompressedSize0 compressedSize0 fileHeaderOffset0)
                     else Inr (uncompressedSize0, compressedSize0, fileHeaderOffset0))
              in
             (case sizes of
                Inl e \<Rightarrow> Inl e
              | Inr (uncompressedSize', compressedSize', fileHeaderOffset') \<Rightarrow>
                if fileHeaderOffset' + 30 > num (footerOffset z)
                then Inl (Err ''Invalid location for file data'')
                else
                  Inr (Some
                    \<lparr>filename = Buf filename',
                     compressedSize = compressedSize',
                     uncompressedSize = uncompressedSize',
                     uncompressedSizeIsCertain = True,
                     compressionMethod = compressionMethod',
                     fileHeaderOffset = Some fileHeaderOffset',
                     fileDataOffset = None,
                     e_isZip64 = isZip64',
                     crc32 = crc32',
                     lastModTime = lastModTime',
                     lastModDate = lastModDate',
                     e_comment = Buf comment',
                     extraFields = extraFields',
                     versionMadeBy = versionMadeBy',
                     versionNeededToExtract = versionNeededToExtract',
                     generalPurposeBitFlag = generalPurposeBitFlag',
                     internalFileAttributes = internalFileAttributes',
                     externalFileAttributes = externalFileAttributes',
                     filenameLength = filenameLength',
                     entryEnd = entryEnd'\<rparr>)))))"

subsection \<open>Anchoring the central directory\<close>

text \<open>
  The search loop of \<^verbatim>\<open>_locateCentralDirectory\<close>: candidate offsets in steps of 4 GiB,
  downwards, while they are above the offset already checked.
\<close>

function lcd_search :: "Zip \<Rightarrow> int \<Rightarrow> int \<Rightarrow> EntryProperties option result \<times> Zip" where
  "lcd_search z offset alreadyCheckedOffset =
     (if offset > alreadyCheckedOffset then
        (case readEntryAt z offset of
           Inl e \<Rightarrow> (Inl e, z)
         | Inr None \<Rightarrow> lcd_search z (offset - FOUR_GIB) alreadyCheckedOffset
         | Inr (Some entry) \<Rightarrow>
             if \<not> firstEntryMaybeMac entry
             then (Inl (Err ''Cannot locate Central Directory''), z)
             else (Inr (Some entry),
                   z\<lparr>isMacArchive := True, centralDirectoryOffset := Some offset\<rparr>))
      else (Inr None, z))"
  by pat_completeness auto
termination
  by (relation "measure (\<lambda>(z, offset, a). nat (offset - a))") (auto simp: FOUR_GIB_def)

declare lcd_search.simps [simp del]

text \<open>
  The end of \<^verbatim>\<open>_locateCentralDirectory\<close>, from the point where a first entry has been
  found; \<open>centralDirectoryEnd0\<close> is the local variable \<^verbatim>\<open>centralDirectoryEnd\<close> there.
\<close>

definition lcd_found :: "EntryProperties \<Rightarrow> int \<Rightarrow> Zip \<Rightarrow> unit result \<times> Zip" where
  "lcd_found entry centralDirectoryEnd0 z =
     (let z1 = (if entryCount z = Some 0 then z\<lparr>isMacArchive := True\<rparr> else z) in
      if isMacArchive z1 then
        let centralDirectoryEnd = num (footerOffset z1);
            z2 = z1\<lparr>centralDirectorySize :=
                      Some (centralDirectoryEnd - num (centralDirectoryOffset z1))\<rparr>
        in
        if num (centralDirectorySize z2) \<le> 0
        then (Inl (Err ''Inconsistent Central Directory size and entry count''), z2)
        else
          let z3 = snd (recalculateEntryCount 1 (entryEnd entry) z2);
              minTotalDataSize =
                num (entryCount z3) * 46 + compressedSize entry + len (filename entry)
                + int (length (extraFields entry)) * MAC_LFH_EXTRA_FIELDS_LENGTH;
              z4 = (if minTotalDataSize + FOUR_GIB \<le> num (centralDirectoryOffset z3)
                    then z3\<lparr>compressedSizesAreCertain := False\<rparr> else z3);
              z5 = (if entryCountIsCertain z4
                       \<and> \<not> entryCountIsCertain_fn (num (entryCount z4) - 1)
                                                     (centralDirectoryEnd - entryEnd entry)
                    then z4\<lparr>entryCountIsCertain := False\<rparr> else z4)
          in (Inr (),
              z5\<lparr>uncompressedSizesAreCertain := False, fileCursor := Some 0,
                  firstEntryProps := Some entry\<rparr>)
      else
        let z2 = z1\<lparr>isMaybeMacArchive := True\<rparr>;
            z3 = (if centralDirectoryEnd0 < num (footerOffset z2)
                  then z2\<lparr>centralDirectorySizeIsCertain := False, entryCountIsCertain := False\<rparr>
                  else snd (recalculateEntryCount 1 (entryEnd entry) z2));
            z4 = z3\<lparr>uncertainUncompressedSizeEntryRefs := Some []\<rparr>;
            z5 = (if entryCountIsCertain z4
                     \<and> \<not> entryCountIsCertain_fn (num (entryCount z4) - 1)
                                                   (centralDirectoryEnd0 - entryEnd entry)
                  then z4\<lparr>entryCountIsCertain := False\<rparr> else z4)
        in (Inr (),
            z5\<lparr>uncompressedSizesAreCertain := False, fileCursor := Some 0,
                firstEntryProps := Some entry\<rparr>))"

text \<open>
  The middle of \<^verbatim>\<open>_locateCentralDirectory\<close>: the search at the candidate offsets when
  no entry has been read yet, and the case that none is found.
\<close>

definition lcd_locate ::
  "EntryProperties option \<Rightarrow> int \<Rightarrow> int \<Rightarrow> Zip \<Rightarrow> unit result \<times> Zip" where
  "lcd_locate entry0 alreadyCheckedOffset centralDirectoryEnd0 z =
     (let searched =
            (case entry0 of
               Some entry \<Rightarrow> (Inr (Some entry), z)
             | None \<Rightarrow>
                 let offset0 = num (footerOffset z)
                               - max (num (centralDirectorySize z)) (num (entryCount z) * CDH_MIN_LENGTH)
                 in
                 if js_rem offset0 FOUR_GIB < num (centralDirectoryOffset z) \<and> offset0 < FOUR_GIB
                 then (Inl (Err ''Inconsistent Central Directory size and entry count''), z)
                 else
                   let offset1 = (if js_rem offset0 FOUR_GIB < num (centralDirectoryOffset z)
                                  then offset0 - FOUR_GIB else offset0);
                       offset2 = floor_div offset1 FOUR_GIB * FOUR_GIB
                                 + num (centralDirectoryOffset z)
                   in lcd_search z offset2 alreadyCheckedOffset)
      in case searched of
           (Inl e, z1) \<Rightarrow> (Inl e, z1)
         | (Inr None, z1) \<Rightarrow>
             if entryCount z1 \<noteq> Some 0 \<or> centralDirectorySize z1 \<noteq> Some 0
             then (Inl (Err ''Cannot locate Central Directory''), z1)
             else (Inr (), z1)
         | (Inr (Some entry), z1) \<Rightarrow> lcd_found entry centralDirectoryEnd0 z1)"

text \<open>
  The beginning of \<^verbatim>\<open>_locateCentralDirectory\<close> after its early exits, in two parts.
  \<open>lcd_adjust\<close> grows a central directory that is too small for the entry count and
  recalculates the entry count; it yields the archive and the local variable
  \<^verbatim>\<open>centralDirectoryEnd\<close>. \<open>lcd_probe\<close> reads the header at the stated offset unless the
  archive is already known to be a Mac archive.
\<close>

definition lcd_adjust :: "Zip \<Rightarrow> Zip \<times> int" where
  "lcd_adjust z =
     (let grow = (num (centralDirectorySize z) < num (entryCount z) * CDH_MIN_LENGTH);
          z1 = (if grow
                then z\<lparr>isMacArchive := True,
                       centralDirectorySize :=
                         Some (num (footerOffset z) - num (centralDirectoryOffset z))\<rparr>
                else z);
          centralDirectoryEnd1 =
            (if grow then num (footerOffset z)
             else num (centralDirectoryOffset z) + num (centralDirectorySize z));
          recalculated = recalculateEntryCount 0 (num (centralDirectoryOffset z1)) z1
      in (if fst recalculated then (snd recalculated)\<lparr>isMacArchive := True\<rparr>
          else snd recalculated,
          centralDirectoryEnd1))"

definition lcd_probe :: "int \<Rightarrow> Zip \<Rightarrow> unit result \<times> Zip" where
  "lcd_probe centralDirectoryEnd1 z2 =
     (if \<not> isMacArchive z2 then
        (case readEntryAt z2 (num (centralDirectoryOffset z2)) of
           Inl e \<Rightarrow> (Inl e, z2)
         | Inr entry \<Rightarrow>
             if (case entry of Some e \<Rightarrow> \<not> firstEntryMaybeMac e | None \<Rightarrow> False) then
               (if num (entryCount z2) \<le> 0
                then (Inl (Err ''Inconsistent Central Directory size and entry count''), z2)
                else (Inr (), z2\<lparr>firstEntryProps := entry\<rparr>))
             else lcd_locate entry (num (centralDirectoryOffset z2)) centralDirectoryEnd1 z2)
      else lcd_locate None (- 1) centralDirectoryEnd1 z2)"

definition locateCentralDirectory :: "Zip \<Rightarrow> unit result \<times> Zip" where
  "locateCentralDirectory z =
     (if \<not> supportMacArchive z then (Inr (), z)
      else if isZip64 z = Some True then (Inr (), z)
      else if z_size z - num (footerOffset z) \<noteq> EOCDR_WITHOUT_COMMENT_SIZE then (Inr (), z)
      else
        let centralDirectoryEnd = num (centralDirectoryOffset z) + num (centralDirectorySize z) in
        if js_rem centralDirectoryEnd FOUR_GIB \<noteq> js_rem (num (footerOffset z)) FOUR_GIB
        then (Inr (), z)
        else if entryCount z = Some 0
                \<and> num (centralDirectoryOffset z) + CDH_MIN_LENGTH > num (footerOffset z)
        then (if centralDirectorySize z \<noteq> Some 0
              then (Inl (Err ''Inconsistent Central Directory size and entry count''), z)
              else (Inr (), z))
        else if num (centralDirectorySize z) < num (entryCount z) * CDH_MIN_LENGTH
                \<and> centralDirectoryEnd \<ge> num (footerOffset z)
        then (Inl (Err ''Inconsistent Central Directory size and entry count''), z)
        else lcd_probe (snd (lcd_adjust z)) (fst (lcd_adjust z)))"

definition init :: "Externals \<Rightarrow> Zip \<Rightarrow> unit result \<times> Zip" where
  "init ext z =
     (case locateEocdr z of
        (Inl e, z1) \<Rightarrow> (Inl e, z1)
      | (Inr eocdrBuffer, z1) \<Rightarrow>
     (case parseEocdr ext eocdrBuffer z1 of
        (Inl e, z2) \<Rightarrow> (Inl e, z2)
      | (Inr _, z2) \<Rightarrow>
     (case (if isZip64 z2 = Some True then parseZip64Eocdr z2 else (Inr (), z2)) of
        (Inl e, z3) \<Rightarrow> (Inl e, z3)
      | (Inr _, z3) \<Rightarrow>
     (case locateCentralDirectory z3 of
        (Inl e, z4) \<Rightarrow> (Inl e, z4)
      | (Inr _, z4) \<Rightarrow> (Inr (), z4\<lparr>entryCursor := centralDirectoryOffset z4\<rparr>)))))"

section \<open>Reading entries\<close>

subsection \<open>Compressed size\<close>

text \<open>
  The search for the data descriptor in \<^verbatim>\<open>_determineCompressedSize\<close>: the result is the
  end of the file data, or \<^verbatim>\<open>null\<close> when no descriptor is found.
\<close>

definition dataDescriptorAt :: "Zip \<Rightarrow> EntryProperties \<Rightarrow> buffer \<Rightarrow> int \<Rightarrow> bool" where
  "dataDescriptorAt z entryProperties buffer fileDataEnd =
     (readUInt32LE buffer 0 = 0x08074B50
      \<and> readUInt32LE buffer 4 = crc32 entryProperties
      \<and> readUInt32LE buffer 8 = compressedSize entryProperties
      \<and> readUInt32LE buffer 12 = uncompressedSize entryProperties
      \<and> (readUInt32LE buffer 16 = 0x04034B50
           \<or> Some (fileDataEnd + 16) = centralDirectoryOffset z))"

function findDataDescriptor :: "Zip \<Rightarrow> EntryProperties \<Rightarrow> int \<Rightarrow> int option result" where
  "findDataDescriptor z entryProperties fileDataEnd =
     (case reader_read (reader z) fileDataEnd 20 of
        Inl e \<Rightarrow> Inl e
      | Inr buffer \<Rightarrow>
          if dataDescriptorAt z entryProperties buffer fileDataEnd then Inr (Some fileDataEnd)
          else if compressedSizesAreCertain z then Inr None
          else if fileDataEnd + FOUR_GIB + 16 > num (centralDirectoryOffset z) then Inr None
          else findDataDescriptor z entryProperties (fileDataEnd + FOUR_GIB))"
  by pat_completeness auto
termination
  by (relation "measure (\<lambda>(z, e, fileDataEnd). nat (num (centralDirectoryOffset z) - fileDataEnd))")
     (auto simp: FOUR_GIB_def)

declare findDataDescriptor.simps [simp del]

text \<open>
  \<^verbatim>\<open>_determineCompressedSize\<close> returns whether the compressed size of all later entries
  is certain; it can change the compressed size of the entry it is given, so the model
  returns the entry as well.
\<close>

definition determineCompressedSize ::
  "EntryProperties \<Rightarrow> int \<Rightarrow> Zip \<Rightarrow> (bool \<times> EntryProperties) result \<times> Zip" where
  "determineCompressedSize entryProperties fileDataOffsetIfMac z =
     (let numEntriesRemaining = num (entryCount z) - numEntriesRead z - 1;
          dataSpaceRemaining =
            num (centralDirectoryOffset z) - fileDataOffsetIfMac - compressedSize entryProperties
            - (if compressionMethod entryProperties = 8 then 16 else 0)
      in
      if dataSpaceRemaining - numEntriesRemaining * 30 < FOUR_GIB
      then (Inr (True, entryProperties), z)
      else if isMacArchive z \<and> numEntriesRemaining = 0 then
        (if js_rem dataSpaceRemaining FOUR_GIB \<noteq> 0
         then (Inl (Err ''Invalid ZIP structure for Mac OS Archive Utility ZIP''), z)
         else (Inr (True,
                    entryProperties\<lparr>compressedSize :=
                                      compressedSize entryProperties + dataSpaceRemaining\<rparr>), z))
      else if compressionMethod entryProperties = 0 then (Inr (False, entryProperties), z)
      else
        case findDataDescriptor z entryProperties
               (fileDataOffsetIfMac + compressedSize entryProperties) of
          Inl e \<Rightarrow> (Inl e, z)
        | Inr None \<Rightarrow>
            if isMacArchive z then (Inl (Err ''Cannot locate file Data Descriptor''), z)
            else (Inr (True, entryProperties),
                  if isMaybeMacArchive z then setAsNotMacArchive z else z)
        | Inr (Some fileDataEnd) \<Rightarrow>
            if fileDataEnd = fileDataOffsetIfMac + compressedSize entryProperties
            then (Inr (False, entryProperties), z)
            else if \<not> isMacArchive z \<and> \<not> isMaybeMacArchive z
            then (Inl (Err ''Cannot locate file Data Descriptor''), z)
            else
              let z1 = (if \<not> isMacArchive z
                        then setAsMacArchive (numEntriesRead z + 1) (entryEnd entryProperties) z
                        else z);
                  entryProperties1 =
                    entryProperties\<lparr>compressedSize := fileDataEnd - fileDataOffsetIfMac\<rparr>;
                  numEntriesRemaining1 = num (entryCount z1) - numEntriesRead z1 - 1;
                  dataSpaceRemaining1 = num (centralDirectoryOffset z1) - fileDataEnd - 16
              in (Inr (dataSpaceRemaining1 - numEntriesRemaining1 * 30 < FOUR_GIB,
                       entryProperties1), z1))"

subsection \<open>Filenames\<close>

text \<open>\<^verbatim>\<open>filename.split('/')\<close>, for any separator.\<close>

fun split_on :: "nat \<Rightarrow> jsstring \<Rightarrow> jsstring list" where
  "split_on c [] = [[]]"
| "split_on c (x # xs) =
     (if x = c then [] # split_on c xs
      else (case split_on c xs of
              [] \<Rightarrow> [[x]]
            | h # t \<Rightarrow> (x # h) # t))"

definition isAsciiLetter :: "nat \<Rightarrow> bool" where
  "isAsciiLetter c = ((97 \<le> c \<and> c \<le> 122) \<or> (65 \<le> c \<and> c \<le> 90))"

definition validateFilename :: "jsstring \<Rightarrow> unit result" where
  "validateFilename fn =
     (if 92 \<in> set fn then Inl (ErrInvalidCharacters fn)
      else if (case fn of a # b # _ \<Rightarrow> isAsciiLetter a \<and> b = 58 | _ \<Rightarrow> False)
              \<or> (case fn of a # _ \<Rightarrow> a = 47 | _ \<Rightarrow> False)
      then Inl (ErrAbsolutePath fn)
      else if [46, 46] \<in> set (split_on 47 fn) then Inl (ErrRelativePath fn)
      else Inr ())"

text \<open>
  The loop of \<^verbatim>\<open>_validateAndDecodeEntry\<close> that looks for a usable Info-ZIP Unicode
  Path extra field.
\<close>

fun unicodePath :: "Externals \<Rightarrow> BufOrStr \<Rightarrow> ExtraField list \<Rightarrow> jsstring option" where
  "unicodePath ext fn [] = None"
| "unicodePath ext fn (extraField # rest) =
     (if ef_id extraField \<noteq> 0x7075 then unicodePath ext fn rest
      else if length (ef_data extraField) < 6 then unicodePath ext fn rest
      else if byteAt (ef_data extraField) 0 \<noteq> 1 then unicodePath ext fn rest
      else if calculateCrc32 ext fn 0 \<noteq> readUInt32LE (ef_data extraField) 1
        then unicodePath ext fn rest
      else Some (decodeBuffer ext (ef_data extraField) 5 True))"

definition decodeEntry :: "Externals \<Rightarrow> Zip \<Rightarrow> EntryProperties \<Rightarrow> EntryProperties result" where
  "decodeEntry ext z entry =
     (let isUtf8 = (js_and (generalPurposeBitFlag entry) 0x800 \<noteq> 0);
          filename0 =
            (case unicodePath ext (filename entry) (extraFields entry) of
               Some f \<Rightarrow> f
             | None \<Rightarrow>
                 (case filename entry of
                    Str f \<Rightarrow> f
                  | Buf b \<Rightarrow> decodeBuffer ext b 0 isUtf8));
          filename1 =
            (if validateFilenames z \<and> \<not> strictFilenames z
             then map (\<lambda>c. if c = 92 then 47 else c) filename0 else filename0);
          comment1 =
            (case e_comment entry of
               Str c \<Rightarrow> Str c
             | Buf b \<Rightarrow> Str (decodeBuffer ext b 0 isUtf8))
      in
      case (if validateFilenames z then validateFilename filename1 else Inr ()) of
        Inl e \<Rightarrow> Inl e
      | Inr _ \<Rightarrow> Inr (entry\<lparr>filename := Str filename1, e_comment := comment1\<rparr>))"

definition toEntry :: "EntryProperties \<Rightarrow> Entry" where
  "toEntry p = EntryBase.extend (EntryBase.truncate p) \<lparr>ref = None\<rparr>"

definition validateAndDecodeEntry :: "Externals \<Rightarrow> Zip \<Rightarrow> EntryProperties \<Rightarrow> Entry result" where
  "validateAndDecodeEntry ext z entry0 =
     (case (if decodeStrings z then decodeEntry ext z entry0 else Inr entry0) of
        Inl e \<Rightarrow> Inl e
      | Inr entry \<Rightarrow>
          let expectedCompressedSize =
                (if js_and (generalPurposeBitFlag entry) 0x1 \<noteq> 0
                 then uncompressedSize entry + 12 else uncompressedSize entry)
          in
          if validateEntrySizes z \<and> compressionMethod entry = 0
             \<and> compressedSize entry \<noteq> expectedCompressedSize
          then Inl (ErrSizeMismatch (compressedSize entry) expectedCompressedSize)
          else Inr (toEntry entry))"

subsection \<open>The next entry\<close>

text \<open>
  \<^verbatim>\<open>_readEntry\<close> in three parts. The first, \<open>readEntry_macState\<close>, is what it does with
  a header it has just read from the central directory, depending on the Mac state of the
  archive; it yields the properties and \<^verbatim>\<open>entryEnd\<close>.
\<close>

definition readEntry_macState ::
  "EntryProperties \<Rightarrow> Zip \<Rightarrow> (EntryProperties \<times> int) option result \<times> Zip" where
  "readEntry_macState entryProperties z =
     (let entryEnd' = entryEnd entryProperties;
          centralDirectoryEnd = num (centralDirectoryOffset z) + num (centralDirectorySize z);
          n1 = numEntriesRead z + 1
      in
      if isMacArchive z then
        if \<not> entryMaybeMac entryProperties
           \<or> fileHeaderOffset entryProperties \<noteq> Some (js_rem (num (fileCursor z)) FOUR_GIB)
        then (Inl (Err ''Inconsistent Central Directory structure''), z)
        else
          (Inr (Some (entryProperties\<lparr>fileHeaderOffset := fileCursor z\<rparr>, entryEnd')),
           if \<not> entryCountIsCertain z
           then recalculateEntryCountIsCertain n1 entryEnd'
                  (snd (recalculateEntryCount n1 entryEnd' z))
           else z)
      else if isMaybeMacArchive z then
        if num (fileCursor z) \<ge> FOUR_GIB then
          if \<not> entryMaybeMac entryProperties
             \<or> fileHeaderOffset entryProperties \<noteq> Some (js_rem (num (fileCursor z)) FOUR_GIB)
          then (Inl (Err ''Inconsistent Central Directory structure''), z)
          else (Inr (Some (entryProperties, entryEnd')), setAsMacArchive n1 entryEnd' z)
        else if \<not> entryMaybeMac entryProperties
                \<or> fileHeaderOffset entryProperties \<noteq> fileCursor z then
          let z1 = setAsNotMacArchive z in
          if Some (numEntriesRead z1) = entryCount z1
          then (Inl (Err ''Central Directory contains too many entries''), z1)
          else (Inr (Some (entryProperties, entryEnd')), z1)
        else if \<not> centralDirectorySizeIsCertain z
                \<and> entryEnd' + (num (entryCount z) - numEntriesRead z - 1) * CDH_MIN_LENGTH
                    > centralDirectoryEnd
        then (Inr (Some (entryProperties, entryEnd')), setAsMacArchive n1 entryEnd' z)
        else if \<not> entryCountIsCertain z then
          let recalculated = recalculateEntryCount n1 entryEnd' z;
              z1 = snd recalculated
          in (Inr (Some (entryProperties, entryEnd')),
              if fst recalculated then setAsMacArchive n1 entryEnd' z1
              else if centralDirectorySizeIsCertain z1
              then recalculateEntryCountIsCertain n1 entryEnd' z1
              else z1)
        else (Inr (Some (entryProperties, entryEnd')), z)
      else (Inr (Some (entryProperties, entryEnd')), z))"

text \<open>
  \<open>readEntry_next\<close>: the properties of the next entry, either the ones kept from
  \<^verbatim>\<open>init\<close> or the ones read at the cursor; \<^verbatim>\<open>null\<close> when the directory has ended.
  Here, as in the search for the data descriptor above, nothing else runs while the
  call waits for a read, so the archive it tests afterwards is the one from before; the
  definitions that end in \<open>_during\<close> have the suspensions.
\<close>

definition readEntry_next :: "Zip \<Rightarrow> (EntryProperties \<times> int) option result \<times> Zip" where
  "readEntry_next z =
     (case firstEntryProps z of
        Some entryProperties \<Rightarrow>
          (Inr (Some (entryProperties, entryEnd entryProperties)), z\<lparr>firstEntryProps := None\<rparr>)
      | None \<Rightarrow>
          (case readEntryAt z (num (entryCursor z)) of
             Inl e \<Rightarrow> (Inl e, z)
           | Inr None \<Rightarrow>
               let centralDirectoryEnd =
                     num (centralDirectoryOffset z) + num (centralDirectorySize z)
               in
               if isMacArchive z \<or> Some (numEntriesRead z) \<noteq> entryCount z
                  \<or> entryCursor z \<noteq> Some centralDirectoryEnd
               then (Inl (Err ''Invalid Central Directory File Header signature''), z)
               else (Inr None, if isMaybeMacArchive z then setAsNotMacArchive z else z)
           | Inr (Some entryProperties) \<Rightarrow> readEntry_macState entryProperties z))"

text \<open>The uncompressed size of an entry when uncompressed sizes are not certain.\<close>

definition uncertainUncompressedSize :: "EntryProperties \<Rightarrow> EntryProperties" where
  "uncertainUncompressedSize entryProperties =
     (if compressionMethod entryProperties = 0
      then entryProperties\<lparr>uncompressedSize := compressedSize entryProperties\<rparr>
      else if compressionMethod entryProperties = 8 then
        let maxUncompressedSize = compressedSize entryProperties * 1032 in
        if maxUncompressedSize > FOUR_GIB * 2
           \<or> (maxUncompressedSize > FOUR_GIB
               \<and> js_rem maxUncompressedSize FOUR_GIB > uncompressedSize entryProperties)
        then entryProperties\<lparr>uncompressedSizeIsCertain := False\<rparr>
        else entryProperties
      else entryProperties\<lparr>uncompressedSizeIsCertain := False\<rparr>)"

text \<open>
  The rest of \<^verbatim>\<open>_readEntry\<close>, from the computation of \<^verbatim>\<open>fileDataOffsetIfMac\<close> on, in
  two parts: \<open>readEntry_compressed\<close> settles the compressed size when compressed sizes
  are not certain, and \<open>readEntry_store\<close> does what follows. The new \<^verbatim>\<open>Entry\<close> object
  enters the store when it is returned, and the result is its index.
\<close>

definition readEntry_compressed ::
  "EntryProperties \<Rightarrow> int \<Rightarrow> Zip \<Rightarrow> EntryProperties result \<times> Zip" where
  "readEntry_compressed entryProperties fileDataOffsetIfMac z =
     (if \<not> compressedSizesAreCertain z then
        (case determineCompressedSize entryProperties fileDataOffsetIfMac z of
           (Inl e, z1) \<Rightarrow> (Inl e, z1)
         | (Inr (isNowCertain, entryProperties1), z1) \<Rightarrow>
             (Inr entryProperties1,
              if isNowCertain then z1\<lparr>compressedSizesAreCertain := True\<rparr> else z1))
      else (Inr entryProperties, z))"

definition readEntry_store ::
  "Externals \<Rightarrow> EntryProperties \<Rightarrow> int \<Rightarrow> int \<Rightarrow> Zip \<Rightarrow> nat option result \<times> Zip" where
  "readEntry_store ext entryProperties1 fileDataOffsetIfMac entryEnd' z1 =
     (let entryProperties =
            (if \<not> uncompressedSizesAreCertain z1
             then uncertainUncompressedSize entryProperties1 else entryProperties1)
      in
      case validateAndDecodeEntry ext z1 entryProperties of
        Inl e \<Rightarrow> (Inl e, z1)
      | Inr entry \<Rightarrow>
          let i = length (entries z1);
              z2 = z1\<lparr>entryCursor := Some entryEnd', numEntriesRead := numEntriesRead z1 + 1\<rparr>
          in
          if isMacArchive z2 \<or> isMaybeMacArchive z2 then
            let dataDescriptorLength = (if compressionMethod entryProperties = 8 then 16 else 0);
                z3 = z2\<lparr>fileCursor :=
                          Some (fileDataOffsetIfMac + compressedSize entry
                                + dataDescriptorLength)\<rparr>
            in
            if isMacArchive z3 then
              (Inr (Some i),
               z3\<lparr>entries := entries z3 @ [entry\<lparr>fileDataOffset := Some fileDataOffsetIfMac\<rparr>]\<rparr>)
            else if \<not> uncompressedSizeIsCertain entry then
              (case uncertainUncompressedSizeEntryRefs z3 of
                 None \<Rightarrow> (Inl (Err ''Logic failure. Please raise an issue.''), z3)
               | Some references \<Rightarrow>
                   (Inr (Some i),
                    z3\<lparr>entries := entries z3 @ [entry\<lparr>ref := Some i\<rparr>],
                       uncertainUncompressedSizeEntryRefs := Some (references @ [i])\<rparr>))
            else (Inr (Some i), z3\<lparr>entries := entries z3 @ [entry]\<rparr>)
          else (Inr (Some i), z2\<lparr>entries := entries z2 @ [entry]\<rparr>))"

definition readEntry_finish ::
  "Externals \<Rightarrow> EntryProperties \<Rightarrow> int \<Rightarrow> Zip \<Rightarrow> nat option result \<times> Zip" where
  "readEntry_finish ext entryProperties0 entryEnd' z =
     (let fileDataOffsetIfMac =
            num (fileHeaderOffset entryProperties0) + 30 + len (filename entryProperties0)
            + int (length (extraFields entryProperties0)) * MAC_LFH_EXTRA_FIELDS_LENGTH
      in
      case readEntry_compressed entryProperties0 fileDataOffsetIfMac z of
        (Inl e, z1) \<Rightarrow> (Inl e, z1)
      | (Inr entryProperties1, z1) \<Rightarrow>
          readEntry_store ext entryProperties1 fileDataOffsetIfMac entryEnd' z1)"

text \<open>\<^verbatim>\<open>_readEntry\<close>.\<close>

definition readEntry_impl :: "Externals \<Rightarrow> Zip \<Rightarrow> nat option result \<times> Zip" where
  "readEntry_impl ext z =
     (if Some (numEntriesRead z) = entryCount z \<and> entryCountIsCertain z then (Inr None, z)
      else
        case readEntry_next z of
          (Inl e, z1) \<Rightarrow> (Inl e, z1)
        | (Inr None, z1) \<Rightarrow> (Inr None, z1)
        | (Inr (Some (entryProperties, entryEnd')), z1) \<Rightarrow>
            readEntry_finish ext entryProperties entryEnd' z1)"

definition reentrancy_error :: error where
  "reentrancy_error =
     Err ''Cannot call `readEntry()` before previous call's promise has settled''"

text \<open>
  \<^verbatim>\<open>readEntry\<close>, when nothing else runs between its call and the settling of its
  promise. \<open>readEntry_begin\<close> is the part before the suspension at
  \<^verbatim>\<open>await this._readEntry()\<close>: it yields the error, or the archive with the guard set.
\<close>

definition readEntry_begin :: "Zip \<Rightarrow> error + Zip" where
  "readEntry_begin z = (if isReading z then Inl reentrancy_error else Inr (z\<lparr>isReading := True\<rparr>))"

definition readEntry :: "Externals \<Rightarrow> Zip \<Rightarrow> nat option result \<times> Zip" where
  "readEntry ext z =
     (case readEntry_begin z of
        Inl e \<Rightarrow> (Inl e, z)
      | Inr z1 \<Rightarrow>
          let result = readEntry_impl ext z1
          in (fst result, (snd result)\<lparr>isReading := False\<rparr>))"

section \<open>Life of a reader and of an archive\<close>

text \<open>
  The calls a reader receives during its life; what happens to it between its own steps
  is a \<open>reader_op\<close>. \<open>reader_after b calls\<close> is a \<^verbatim>\<open>BufferReader\<close> on \<open>b\<close> after the
  calls, in order.
\<close>

datatype reader_call = CallOpen | CallClose "reader_op list" | Between reader_op

fun reader_call_step :: "Reader \<Rightarrow> reader_call \<Rightarrow> Reader" where
  "reader_call_step r CallOpen = snd (reader_open r)"
| "reader_call_step r (CallClose during) = snd (reader_close during r)"
| "reader_call_step r (Between op) = reader_step r op"

definition reader_after :: "buffer \<Rightarrow> reader_call list \<Rightarrow> Reader" where
  "reader_after b calls = foldl reader_call_step (Reader_new b) calls"

definition liveStreams :: "Reader \<Rightarrow> nat" where
  "liveStreams r = length (filter Not (streamEnded r))"

text \<open>
  The states \<^verbatim>\<open>init\<close> passes through, in order: the archive as constructed, then the
  archive after each of the steps that \<^verbatim>\<open>init\<close> takes, up to the one that fails or to
  the last.
\<close>

definition init_states :: "Externals \<Rightarrow> Zip \<Rightarrow> Zip list" where
  "init_states ext z =
     (case locateEocdr z of
        (Inl e, z1) \<Rightarrow> [z, z1]
      | (Inr eocdrBuffer, z1) \<Rightarrow>
     (case parseEocdr ext eocdrBuffer z1 of
        (Inl e, z2) \<Rightarrow> [z, z1, z2]
      | (Inr _, z2) \<Rightarrow>
     (case (if isZip64 z2 = Some True then parseZip64Eocdr z2 else (Inr (), z2)) of
        (Inl e, z3) \<Rightarrow> [z, z1, z2, z3]
      | (Inr _, z3) \<Rightarrow>
     (case locateCentralDirectory z3 of
        (Inl e, z4) \<Rightarrow> [z, z1, z2, z3, z4]
      | (Inr _, z4) \<Rightarrow> [z, z1, z2, z3, z4, z4\<lparr>entryCursor := centralDirectoryOffset z4\<rparr>]))))"

text \<open>
  What can happen to an archive once \<^verbatim>\<open>init\<close> has returned: calls of its methods, the
  transforms of the streams it has handed out, and the events of its reader.
  \<open>zip_run ext calls z\<close> is the archive after the calls, in order.
\<close>

datatype zip_call =
    ReadEntry
  | OpenReadStream nat "OpenReadStreamOptions option"
  | StreamTransform int ValidateUncompressedSizeStream
  | StreamFlush ValidateUncompressedSizeStream
  | SetAsMacArchive int int
  | SetAsNotMacArchive
  | ReaderCall reader_call

fun zip_step :: "Externals \<Rightarrow> Zip \<Rightarrow> zip_call \<Rightarrow> Zip" where
  "zip_step ext z ReadEntry = snd (readEntry ext z)"
| "zip_step ext z (OpenReadStream i options) = snd (openReadStream i options z)"
| "zip_step ext z (StreamTransform chunkLength vs) = snd (snd (vus_transform chunkLength vs z))"
| "zip_step ext z (StreamFlush vs) = snd (snd (vus_flush vs z))"
| "zip_step ext z (SetAsMacArchive numEntriesRead' entryCursor') =
     setAsMacArchive numEntriesRead' entryCursor' z"
| "zip_step ext z SetAsNotMacArchive = setAsNotMacArchive z"
| "zip_step ext z (ReaderCall c) = z\<lparr>reader := reader_call_step (reader z) c\<rparr>"

definition zip_run :: "Externals \<Rightarrow> zip_call list \<Rightarrow> Zip \<Rightarrow> Zip" where
  "zip_run ext calls z = foldl (zip_step ext) z calls"

section \<open>Reading an entry while other tasks run\<close>

text \<open>
  \<^verbatim>\<open>readEntry\<close> and the methods it awaits are asynchronous: at every \<^verbatim>\<open>await\<close> the call is
  suspended, and other tasks can call the archive before it resumes. A \<open>pause\<close> is what
  the others do during one suspension: calls of the archive, each from its call to its
  settlement. A \<open>schedule\<close> names the suspensions of one call of \<^verbatim>\<open>readEntry\<close>: in
  \<^verbatim>\<open>_readEntryAt\<close>, the read of the header and the read of the filename, extra fields and
  comment, each while the read is pending and between its settling and the resumption of
  \<^verbatim>\<open>_readEntryAt\<close>; the return of \<^verbatim>\<open>_readEntryAt\<close> to \<^verbatim>\<open>_readEntry\<close>; the reads of the search
  for the data descriptor, one pair for each turn of the loop (turns beyond the list are
  not interrupted); the return of \<^verbatim>\<open>_determineCompressedSize\<close>; and the return of
  \<^verbatim>\<open>_readEntry\<close> to \<^verbatim>\<open>readEntry\<close>.
\<close>

type_synonym pause = "zip_call list"

record schedule =
  reading_header :: pause
  after_header :: pause
  reading_extra :: pause
  after_extra :: pause
  after_entry :: pause
  descriptor_reads :: "(pause \<times> pause) list"
  after_size :: pause
  after_readEntry :: pause

text \<open>
  \<^verbatim>\<open>Reader.read\<close> with its suspensions. The result is the one of the call; while the
  read is pending the counter of the reader is raised.
\<close>

definition read_during ::
  "Externals \<Rightarrow> pause \<Rightarrow> pause \<Rightarrow> int \<Rightarrow> int \<Rightarrow> Zip \<Rightarrow> buffer result \<times> Zip" where
  "read_during ext reading settled start length' z =
     (if \<not> r_isOpen (reader z)
      then (Inl (Err ''Cannot call `read()` on a reader which is not open''),
            zip_run ext settled z)
      else if length' = 0 then (Inr [], zip_run ext settled z)
      else
        let r = reader z;
            z1 = z\<lparr>reader := r\<lparr>readCount := readCount r + 1,
                                pendingReads := pendingReads r + 1\<rparr>\<rparr>;
            result = bufferReader_read (reader z1) start length';
            z2 = zip_run ext reading z1;
            r2 = reader z2;
            z3 = z2\<lparr>reader := r2\<lparr>readCount := readCount r2 - 1,
                                  pendingReads := pendingReads r2 - 1\<rparr>\<rparr>
        in (result, zip_run ext settled z3))"

text \<open>\<^verbatim>\<open>_readEntryAt\<close> with its two reads suspended.\<close>

definition readEntryAt_during ::
  "Externals \<Rightarrow> schedule \<Rightarrow> int \<Rightarrow> Zip \<Rightarrow> EntryProperties option result \<times> Zip" where
  "readEntryAt_during ext s offset z =
     (if offset + CDH_MIN_LENGTH > num (footerOffset z)
      then (Inl (Err ''Invalid Central Directory File Header''), z)
      else
      case read_during ext (reading_header s) (after_header s) offset CDH_MIN_LENGTH z of
        (Inl e, z1) \<Rightarrow> (Inl e, z1)
      | (Inr entryBuffer, z1) \<Rightarrow>
      if readUInt32LE entryBuffer 0 \<noteq> 0x02014B50 then (Inr None, z1)
      else
        let versionMadeBy' = readUInt16LE entryBuffer 4;
            versionNeededToExtract' = readUInt16LE entryBuffer 6;
            generalPurposeBitFlag' = readUInt16LE entryBuffer 8;
            compressionMethod' = readUInt16LE entryBuffer 10;
            lastModTime' = readUInt16LE entryBuffer 12;
            lastModDate' = readUInt16LE entryBuffer 14;
            crc32' = readUInt32LE entryBuffer 16;
            compressedSize0 = readUInt32LE entryBuffer 20;
            uncompressedSize0 = readUInt32LE entryBuffer 24;
            filenameLength' = readUInt16LE entryBuffer 28;
            extraFieldLength = readUInt16LE entryBuffer 30;
            commentLength = readUInt16LE entryBuffer 32;
            internalFileAttributes' = readUInt16LE entryBuffer 36;
            externalFileAttributes' = readUInt32LE entryBuffer 38;
            fileHeaderOffset0 = readUInt32LE entryBuffer 42
        in
        if js_and generalPurposeBitFlag' 0x40 \<noteq> 0
        then (Inl (Err ''Strong encryption is not supported''), z1)
        else
          let extraDataOffset = offset + CDH_MIN_LENGTH;
              extraDataSize = filenameLength' + extraFieldLength + commentLength;
              entryEnd' = extraDataOffset + extraDataSize
          in
          if entryEnd' > num (footerOffset z1)
          then (Inl (Err ''Invalid Central Directory File Header''), z1)
          else
         (case read_during ext (reading_extra s) (after_extra s) extraDataOffset extraDataSize z1 of
            (Inl e, z2) \<Rightarrow> (Inl e, z2)
          | (Inr extraBuffer, z2) \<Rightarrow>
            let filename' = subarray extraBuffer 0 (nat filenameLength');
                commentStart = filenameLength' + extraFieldLength;
                extraFieldBuffer = subarray extraBuffer (nat filenameLength') (nat commentStart)
            in
           (case parseExtraFields extraFieldBuffer 0 [] None of
              Inl e \<Rightarrow> (Inl e, z2)
            | Inr (extraFields', zip64EiefBuffer) \<Rightarrow>
              let comment' = subarray extraBuffer (nat commentStart) (nat extraDataSize);
                  isZip64' = (uncompressedSize0 = 0xFFFFFFFF \<or> compressedSize0 = 0xFFFFFFFF
                              \<or> fileHeaderOffset0 = 0xFFFFFFFF);
                  sizes =
                    (if isZip64' then
                       (case zip64EiefBuffer of
                          None \<Rightarrow> Inl (Err ''Expected ZIP64 Extended Information Extra Field'')
                        | Some b \<Rightarrow> applyZip64 b uncompressedSize0 compressedSize0 fileHeaderOffset0)
                     else Inr (uncompressedSize0, compressedSize0, fileHeaderOffset0))
              in
             (case sizes of
                Inl e \<Rightarrow> (Inl e, z2)
              | Inr (uncompressedSize', compressedSize', fileHeaderOffset') \<Rightarrow>
                if fileHeaderOffset' + 30 > num (footerOffset z2)
                then (Inl (Err ''Invalid location for file data''), z2)
                else
                  (Inr (Some
                    \<lparr>filename = Buf filename',
                     compressedSize = compressedSize',
                     uncompressedSize = uncompressedSize',
                     uncompressedSizeIsCertain = True,
                     compressionMethod = compressionMethod',
                     fileHeaderOffset = Some fileHeaderOffset',
                     fileDataOffset = None,
                     e_isZip64 = isZip64',
                     crc32 = crc32',
                     lastModTime = lastModTime',
                     lastModDate = lastModDate',
                     e_comment = Buf comment',
                     extraFields = extraFields',
                     versionMadeBy = versionMadeBy',
                     versionNeededToExtract = versionNeededToExtract',
                     generalPurposeBitFlag = generalPurposeBitFlag',
                     internalFileAttributes = internalFileAttributes',
                     externalFileAttributes = externalFileAttributes',
                     filenameLength = filenameLength',
                     entryEnd = entryEnd'\<rparr>), z2)))))"

text \<open>
  The search for the data descriptor with its reads suspended: after each read the
  loop consults the archive as it is then.
\<close>

fun findDataDescriptor_during ::
  "Externals \<Rightarrow> (pause \<times> pause) list \<Rightarrow> EntryProperties \<Rightarrow> int \<Rightarrow> Zip
   \<Rightarrow> int option result \<times> Zip" where
  "findDataDescriptor_during ext [] entryProperties fileDataEnd z =
     (findDataDescriptor z entryProperties fileDataEnd, z)"
| "findDataDescriptor_during ext (p # ps) entryProperties fileDataEnd z =
     (case read_during ext (fst p) (snd p) fileDataEnd 20 z of
        (Inl e, z1) \<Rightarrow> (Inl e, z1)
      | (Inr buffer, z1) \<Rightarrow>
          if dataDescriptorAt z1 entryProperties buffer fileDataEnd then (Inr (Some fileDataEnd), z1)
          else if compressedSizesAreCertain z1 then (Inr None, z1)
          else if fileDataEnd + FOUR_GIB + 16 > num (centralDirectoryOffset z1) then (Inr None, z1)
          else findDataDescriptor_during ext ps entryProperties (fileDataEnd + FOUR_GIB) z1)"

definition determineCompressedSize_during ::
  "Externals \<Rightarrow> schedule \<Rightarrow> EntryProperties \<Rightarrow> int \<Rightarrow> Zip
   \<Rightarrow> (bool \<times> EntryProperties) result \<times> Zip" where
  "determineCompressedSize_during ext s entryProperties fileDataOffsetIfMac z =
     (let numEntriesRemaining = num (entryCount z) - numEntriesRead z - 1;
          dataSpaceRemaining =
            num (centralDirectoryOffset z) - fileDataOffsetIfMac - compressedSize entryProperties
            - (if compressionMethod entryProperties = 8 then 16 else 0)
      in
      if dataSpaceRemaining - numEntriesRemaining * 30 < FOUR_GIB
      then (Inr (True, entryProperties), z)
      else if isMacArchive z \<and> numEntriesRemaining = 0 then
        (if js_rem dataSpaceRemaining FOUR_GIB \<noteq> 0
         then (Inl (Err ''Invalid ZIP structure for Mac OS Archive Utility ZIP''), z)
         else (Inr (True,
                    entryProperties\<lparr>compressedSize :=
                                      compressedSize entryProperties + dataSpaceRemaining\<rparr>), z))
      else if compressionMethod entryProperties = 0 then (Inr (False, entryProperties), z)
      else
        case findDataDescriptor_during ext (descriptor_reads s) entryProperties
               (fileDataOffsetIfMac + compressedSize entryProperties) z of
          (Inl e, z0) \<Rightarrow> (Inl e, z0)
        | (Inr None, z0) \<Rightarrow>
            if isMacArchive z0 then (Inl (Err ''Cannot locate file Data Descriptor''), z0)
            else (Inr (True, entryProperties),
                  if isMaybeMacArchive z0 then setAsNotMacArchive z0 else z0)
        | (Inr (Some fileDataEnd), z0) \<Rightarrow>
            if fileDataEnd = fileDataOffsetIfMac + compressedSize entryProperties
            then (Inr (False, entryProperties), z0)
            else if \<not> isMacArchive z0 \<and> \<not> isMaybeMacArchive z0
            then (Inl (Err ''Cannot locate file Data Descriptor''), z0)
            else
              let z1 = (if \<not> isMacArchive z0
                        then setAsMacArchive (numEntriesRead z0 + 1) (entryEnd entryProperties) z0
                        else z0);
                  entryProperties1 =
                    entryProperties\<lparr>compressedSize := fileDataEnd - fileDataOffsetIfMac\<rparr>;
                  numEntriesRemaining1 = num (entryCount z1) - numEntriesRead z1 - 1;
                  dataSpaceRemaining1 = num (centralDirectoryOffset z1) - fileDataEnd - 16
              in (Inr (dataSpaceRemaining1 - numEntriesRemaining1 * 30 < FOUR_GIB,
                       entryProperties1), z1))"

text \<open>
  \<^verbatim>\<open>_readEntry\<close> with its suspensions. \<open>readEntry_resumed\<close> is the header that
  \<^verbatim>\<open>_readEntryAt\<close> has read at the cursor, with the archive as \<^verbatim>\<open>_readEntry\<close> finds it
  when it resumes: this is the archive whose Mac flags, cursors and counts it tests.
\<close>

definition readEntry_resumed ::
  "Externals \<Rightarrow> schedule \<Rightarrow> Zip \<Rightarrow> EntryProperties option result \<times> Zip" where
  "readEntry_resumed ext s z =
     (let entryPropertiesResult = readEntryAt_during ext s (num (entryCursor z)) z
      in (fst entryPropertiesResult, zip_run ext (after_entry s) (snd entryPropertiesResult)))"

definition readEntry_next_during ::
  "Externals \<Rightarrow> schedule \<Rightarrow> Zip \<Rightarrow> (EntryProperties \<times> int) option result \<times> Zip" where
  "readEntry_next_during ext s z =
     (case firstEntryProps z of
        Some entryProperties \<Rightarrow>
          (Inr (Some (entryProperties, entryEnd entryProperties)), z\<lparr>firstEntryProps := None\<rparr>)
      | None \<Rightarrow>
          (case readEntry_resumed ext s z of
             (Inl e, z1) \<Rightarrow> (Inl e, z1)
           | (Inr None, z1) \<Rightarrow>
               let centralDirectoryEnd =
                     num (centralDirectoryOffset z1) + num (centralDirectorySize z1)
               in
               if isMacArchive z1 \<or> Some (numEntriesRead z1) \<noteq> entryCount z1
                  \<or> entryCursor z1 \<noteq> Some centralDirectoryEnd
               then (Inl (Err ''Invalid Central Directory File Header signature''), z1)
               else (Inr None, if isMaybeMacArchive z1 then setAsNotMacArchive z1 else z1)
           | (Inr (Some entryProperties), z1) \<Rightarrow> readEntry_macState entryProperties z1))"

definition readEntry_compressed_during ::
  "Externals \<Rightarrow> schedule \<Rightarrow> EntryProperties \<Rightarrow> int \<Rightarrow> Zip \<Rightarrow> EntryProperties result \<times> Zip" where
  "readEntry_compressed_during ext s entryProperties fileDataOffsetIfMac z =
     (if \<not> compressedSizesAreCertain z then
        let isNowCertain = determineCompressedSize_during ext s entryProperties fileDataOffsetIfMac z;
            z1 = zip_run ext (after_size s) (snd isNowCertain)
        in
        (case fst isNowCertain of
           Inl e \<Rightarrow> (Inl e, z1)
         | Inr (certain, entryProperties1) \<Rightarrow>
             (Inr entryProperties1,
              if certain then z1\<lparr>compressedSizesAreCertain := True\<rparr> else z1))
      else (Inr entryProperties, z))"

definition readEntry_finish_during ::
  "Externals \<Rightarrow> schedule \<Rightarrow> EntryProperties \<Rightarrow> int \<Rightarrow> Zip \<Rightarrow> nat option result \<times> Zip" where
  "readEntry_finish_during ext s entryProperties0 entryEnd' z =
     (let fileDataOffsetIfMac =
            num (fileHeaderOffset entryProperties0) + 30 + len (filename entryProperties0)
            + int (length (extraFields entryProperties0)) * MAC_LFH_EXTRA_FIELDS_LENGTH
      in
      case readEntry_compressed_during ext s entryProperties0 fileDataOffsetIfMac z of
        (Inl e, z1) \<Rightarrow> (Inl e, z1)
      | (Inr entryProperties1, z1) \<Rightarrow>
          readEntry_store ext entryProperties1 fileDataOffsetIfMac entryEnd' z1)"

definition readEntry_impl_during :: "Externals \<Rightarrow> schedule \<Rightarrow> Zip \<Rightarrow> nat option result \<times> Zip" where
  "readEntry_impl_during ext s z =
     (if Some (numEntriesRead z) = entryCount z \<and> entryCountIsCertain z then (Inr None, z)
      else
        case readEntry_next_during ext s z of
          (Inl e, z1) \<Rightarrow> (Inl e, z1)
        | (Inr None, z1) \<Rightarrow> (Inr None, z1)
        | (Inr (Some (entryProperties, entryEnd')), z1) \<Rightarrow>
            readEntry_finish_during ext s entryProperties entryEnd' z1)"

text \<open>
  \<^verbatim>\<open>readEntry\<close> with its suspensions: the guard is set before the first of them and
  cleared after the last.
\<close>

definition readEntry_during :: "Externals \<Rightarrow> schedule \<Rightarrow> Zip \<Rightarrow> nat option result \<times> Zip" where
  "readEntry_during ext s z =
     (case readEntry_begin z of
        Inl e \<Rightarrow> (Inl e, z)
      | Inr z1 \<Rightarrow>
          let result = readEntry_impl_during ext s z1;
              z2 = zip_run ext (after_readEntry s) (snd result)
          in (fst result, z2\<lparr>isReading := False\<rparr>))"

text \<open>
  The life of an archive once \<^verbatim>\<open>init\<close> has returned: calls that nothing interrupts,
  and calls of \<^verbatim>\<open>readEntry\<close> with a schedule.
\<close>

datatype archive_event = Call zip_call | ReadEntryDuring schedule

fun archive_step :: "Externals \<Rightarrow> Zip \<Rightarrow> archive_event \<Rightarrow> Zip" where
  "archive_step ext z (Call c) = zip_step ext z c"
| "archive_step ext z (ReadEntryDuring s) = snd (readEntry_during ext s z)"

definition archive_run :: "Externals \<Rightarrow> archive_event list \<Rightarrow> Zip \<Rightarrow> Zip" where
  "archive_run ext events z = foldl (archive_step ext) z events"

definition quiet :: schedule where
  "quiet =
     \<lparr>reading_header = [], after_header = [], reading_extra = [], after_extra = [],
      after_entry = [], descriptor_reads = [], after_size = [], after_readEntry = []\<rparr>"

section \<open>Concrete archives and entries\<close>

text \<open>
  A local file header for the empty file \<^verbatim>\<open>a\<close>, deflated to two bytes, with these bytes;
  the options of an archive and of a stream.
\<close>

definition deflated_file_bytes :: buffer where
  "deflated_file_bytes =
     [0x50, 0x4B, 0x03, 0x04, 20, 0, 0, 0, 8, 0, 0, 0, 0, 0,
      0, 0, 0, 0, 2, 0, 0, 0, 0, 0, 0, 0, 1, 0, 0, 0, 0x61, 0x03, 0x00]"

definition default_options :: ZipOptions where
  "default_options =
     \<lparr>o_decodeStrings = True, o_validateEntrySizes = True, o_validateFilenames = True,
      o_strictFilenames = False, o_supportMacArchive = True\<rparr>"

definition no_options :: OpenReadStreamOptions where
  "no_options =
     \<lparr>decompress = None, decrypt = None, validateCrc32 = None, start_opt = None, end_opt = None\<rparr>"

definition decrypt_true :: OpenReadStreamOptions where
  "decrypt_true = no_options\<lparr>decrypt := Some (Bool True)\<rparr>"

text \<open>
  A file of \<open>8 GiB + 22\<close> bytes whose end record, at offset \<open>8 GiB\<close>, claims one entry and a
  central directory of size 0 at offset 0. \<open>claimed_zip\<close> is the archive once
  \<^verbatim>\<open>_parseEocdr\<close> has read that record (the bytes of the file play no part in what
  follows, and the reader holds none). \<open>grown_zip\<close> is the state in which
  \<^verbatim>\<open>_locateCentralDirectory\<close> then calls \<^verbatim>\<open>_recalculateEntryCount(0, centralDirectoryOffset)\<close>:
  the directory has just been grown up to the end record.
\<close>

definition claimed_zip :: Zip where
  "claimed_zip =
     (Zip_new ((Reader_new [])\<lparr>r_isOpen := True\<rparr>) 8589934614 default_options)
       \<lparr>isZip64 := Some False, entryCount := Some 1, footerOffset := Some 8589934592,
        centralDirectoryOffset := Some 0, centralDirectorySize := Some 0,
        comment := Some (Str [])\<rparr>"

definition grown_zip :: Zip where
  "grown_zip = claimed_zip\<lparr>isMacArchive := True, centralDirectorySize := Some 8589934592\<rparr>"

text \<open>A folder entry as Archive Utility writes it, but with a nonzero CRC32.\<close>

definition folder_entry_crc :: EntryProperties where
  "folder_entry_crc =
     \<lparr>filename = Buf [0x61, 0x2F], compressedSize = 0, uncompressedSize = 0,
      uncompressedSizeIsCertain = True, compressionMethod = 0,
      fileHeaderOffset = Some 0, fileDataOffset = None, e_isZip64 = False, crc32 = 1,
      lastModTime = 0, lastModDate = 0, e_comment = Buf [],
      extraFields = [\<lparr>ef_id = 22613, ef_data = [0, 0, 0, 0, 0, 0, 0, 0]\<rparr>],
      versionMadeBy = 789, versionNeededToExtract = 10, generalPurposeBitFlag = 0,
      internalFileAttributes = 0, externalFileAttributes = 0, filenameLength = 2,
      entryEnd = 60\<rparr>"

text \<open>
  An archive without entries and with the comment \<^verbatim>\<open>hi\<close>; a reader's life with one
  stream and one read.
\<close>

definition empty_archive :: buffer where
  "empty_archive = [0x50, 0x4B, 0x05, 0x06, 0, 0, 0, 0, 0, 0, 0, 0, 0, 0, 0, 0, 0, 0, 0, 0, 2, 0,
                    0x68, 0x69]"

definition empty_archive_zip :: Zip where
  "empty_archive_zip = Zip_new ((Reader_new empty_archive)\<lparr>r_isOpen := True\<rparr>) 24 default_options"

definition two_events :: "reader_call list" where
  "two_events = [CallOpen, Between (OpCreateReadStream 0 2), Between (OpReadBegin 0 1),
                 Between (OpEmit 0 End), Between OpReadSettle, Between (OpEmit 0 Close)]"

text \<open>
  Eight archives, byte by byte. In the first the local file header of an empty stored
  file claims 65535 bytes of extra fields. The second holds one deflated file. The
  third holds one empty stored file with the encryption bit set, so with the 12 bytes
  of an encryption header as its data. The fourth is a folder as Archive Utility writes
  it, except that its local file header has a CRC32 of 1. The fifth is the central
  directory of such a folder, with a CRC32 of 1 there, and the end record; its one
  header is the entry \<open>folder_entry_crc\<close>. The sixth is a central directory of two
  Archive Utility files behind which the end record claims 65535 entries; the first
  file claims a compressed size of \<open>2 ^ 32 - 63\<close>. The seventh is the second with the
  comment \<^verbatim>\<open>hi\<close> in its end record. The eighth is the sixth with an end record that
  claims two entries. They are opened without decoding of strings.
\<close>

definition overlong_header_archive :: buffer where
  "overlong_header_archive =
     [0x50, 0x4B, 0x03, 0x04, 10, 0, 0, 0, 0, 0, 0, 0, 0, 0,
      0, 0, 0, 0, 0, 0, 0, 0, 0, 0, 0, 0, 1, 0, 0xFF, 0xFF, 0x61,
      0x50, 0x4B, 0x01, 0x02, 20, 0, 10, 0, 0, 0, 0, 0, 0, 0, 0, 0,
      0, 0, 0, 0, 0, 0, 0, 0, 0, 0, 0, 0, 1, 0, 0, 0, 0, 0, 0, 0,
      0, 0, 0, 0, 0, 0, 0, 0, 0, 0, 0x61,
      0x50, 0x4B, 0x05, 0x06, 0, 0, 0, 0, 1, 0, 1, 0, 47, 0, 0, 0, 31, 0, 0, 0, 0, 0]"

definition deflated_archive :: buffer where
  "deflated_archive =
     deflated_file_bytes @
     [0x50, 0x4B, 0x01, 0x02, 20, 0, 20, 0, 0, 0, 8, 0, 0, 0, 0, 0,
      0, 0, 0, 0, 2, 0, 0, 0, 0, 0, 0, 0, 1, 0, 0, 0, 0, 0, 0, 0,
      0, 0, 0, 0, 0, 0, 0, 0, 0, 0, 0x61,
      0x50, 0x4B, 0x05, 0x06, 0, 0, 0, 0, 1, 0, 1, 0, 47, 0, 0, 0, 33, 0, 0, 0, 0, 0]"

definition encrypted_archive :: buffer where
  "encrypted_archive =
     [0x50, 0x4B, 0x03, 0x04, 20, 0, 1, 0, 0, 0, 0, 0, 0, 0,
      0, 0, 0, 0, 12, 0, 0, 0, 0, 0, 0, 0, 1, 0, 0, 0, 0x61,
      0, 0, 0, 0, 0, 0, 0, 0, 0, 0, 0, 0,
      0x50, 0x4B, 0x01, 0x02, 20, 0, 20, 0, 1, 0, 0, 0, 0, 0, 0, 0,
      0, 0, 0, 0, 12, 0, 0, 0, 0, 0, 0, 0, 1, 0, 0, 0, 0, 0, 0, 0,
      0, 0, 0, 0, 0, 0, 0, 0, 0, 0, 0x61,
      0x50, 0x4B, 0x05, 0x06, 0, 0, 0, 0, 1, 0, 1, 0, 47, 0, 0, 0, 43, 0, 0, 0, 0, 0]"

definition mac_folder_archive :: buffer where
  "mac_folder_archive =
     [0x50, 0x4B, 0x03, 0x04, 10, 0, 0, 0, 0, 0, 0, 0, 0, 0,
      1, 0, 0, 0, 0, 0, 0, 0, 0, 0, 0, 0, 2, 0, 16, 0, 0x61, 0x2F,
      0x55, 0x58, 12, 0, 0, 0, 0, 0, 0, 0, 0, 0, 0, 0, 0, 0,
      0x50, 0x4B, 0x01, 0x02, 0x15, 0x03, 10, 0, 0, 0, 0, 0, 0, 0, 0, 0,
      0, 0, 0, 0, 0, 0, 0, 0, 0, 0, 0, 0, 2, 0, 12, 0, 0, 0, 0, 0,
      0, 0, 0, 0, 0, 0, 0, 0, 0, 0, 0x61, 0x2F,
      0x55, 0x58, 8, 0, 0, 0, 0, 0, 0, 0, 0, 0,
      0x50, 0x4B, 0x05, 0x06, 0, 0, 0, 0, 1, 0, 1, 0, 60, 0, 0, 0, 48, 0, 0, 0, 0, 0]"

definition crc_folder_archive :: buffer where
  "crc_folder_archive =
     [0x50, 0x4B, 0x01, 0x02, 0x15, 0x03, 10, 0, 0, 0, 0, 0, 0, 0, 0, 0,
      1, 0, 0, 0, 0, 0, 0, 0, 0, 0, 0, 0, 2, 0, 12, 0, 0, 0, 0, 0,
      0, 0, 0, 0, 0, 0, 0, 0, 0, 0, 0x61, 0x2F,
      0x55, 0x58, 8, 0, 0, 0, 0, 0, 0, 0, 0, 0,
      0x50, 0x4B, 0x05, 0x06, 0, 0, 0, 0, 1, 0, 1, 0, 60, 0, 0, 0, 0, 0, 0, 0, 0, 0]"

definition truncated_offset_archive :: buffer where
  "truncated_offset_archive =
     [0x50, 0x4B, 0x01, 0x02, 0x15, 0x03, 20, 0, 8, 0, 8, 0, 0, 0, 0, 0,
      0, 0, 0, 0, 0xC1, 0xFF, 0xFF, 0xFF, 0, 0, 0, 0, 1, 0, 12, 0, 0, 0, 0, 0,
      0, 0, 0, 0, 0, 0, 0, 0, 0, 0, 0x61,
      0x55, 0x58, 8, 0, 0, 0, 0, 0, 0, 0, 0, 0,
      0x50, 0x4B, 0x01, 0x02, 0x15, 0x03, 20, 0, 8, 0, 8, 0, 0, 0, 0, 0,
      0, 0, 0, 0, 2, 0, 0, 0, 0, 0, 0, 0, 1, 0, 12, 0, 0, 0, 0, 0,
      0, 0, 0, 0, 0, 0, 0, 0, 0, 0, 0x62,
      0x55, 0x58, 8, 0, 0, 0, 0, 0, 0, 0, 0, 0,
      0x50, 0x4B, 0x05, 0x06, 0, 0, 0, 0, 0xFF, 0xFF, 0xFF, 0xFF, 118, 0, 0, 0, 0, 0, 0, 0, 0, 0]"

definition commented_archive :: buffer where
  "commented_archive =
     deflated_file_bytes @
     [0x50, 0x4B, 0x01, 0x02, 20, 0, 20, 0, 0, 0, 8, 0, 0, 0, 0, 0,
      0, 0, 0, 0, 2, 0, 0, 0, 0, 0, 0, 0, 1, 0, 0, 0, 0, 0, 0, 0,
      0, 0, 0, 0, 0, 0, 0, 0, 0, 0, 0x61,
      0x50, 0x4B, 0x05, 0x06, 0, 0, 0, 0, 1, 0, 1, 0, 47, 0, 0, 0, 33, 0, 0, 0, 2, 0,
      0x68, 0x69]"

definition race_archive :: buffer where
  "race_archive =
     [0x50, 0x4B, 0x01, 0x02, 0x15, 0x03, 20, 0, 8, 0, 8, 0, 0, 0, 0, 0,
      0, 0, 0, 0, 0xC1, 0xFF, 0xFF, 0xFF, 0, 0, 0, 0, 1, 0, 12, 0, 0, 0, 0, 0,
      0, 0, 0, 0, 0, 0, 0, 0, 0, 0, 0x61,
      0x55, 0x58, 8, 0, 0, 0, 0, 0, 0, 0, 0, 0,
      0x50, 0x4B, 0x01, 0x02, 0x15, 0x03, 20, 0, 8, 0, 8, 0, 0, 0, 0, 0,
      0, 0, 0, 0, 2, 0, 0, 0, 0, 0, 0, 0, 1, 0, 12, 0, 0, 0, 0, 0,
      0, 0, 0, 0, 0, 0, 0, 0, 0, 0, 0x62,
      0x55, 0x58, 8, 0, 0, 0, 0, 0, 0, 0, 0, 0,
      0x50, 0x4B, 0x05, 0x06, 0, 0, 0, 0, 2, 0, 2, 0, 118, 0, 0, 0, 0, 0, 0, 0, 0, 0]"

definition raw_options :: ZipOptions where
  "raw_options = default_options\<lparr>o_decodeStrings := False\<rparr>"

definition no_externals :: Externals where
  "no_externals = \<lparr>decodeBuffer = (\<lambda>b s u. map unat (drop s b)), calculateCrc32 = (\<lambda>d v. 0)\<rparr>"

definition opened :: "buffer \<Rightarrow> Zip" where
  "opened b =
     snd (init no_externals
            (Zip_new ((Reader_new b)\<lparr>r_isOpen := True\<rparr>) (int (length b)) raw_options))"

definition overlong_zip :: Zip where
  "overlong_zip = zip_run no_externals [ReadEntry] (opened overlong_header_archive)"

definition deflated_read :: "nat option result \<times> Zip" where
  "deflated_read = readEntry no_externals (opened deflated_archive)"

definition deflated_opened :: "OpenedStream result \<times> Zip" where
  "deflated_opened = openReadStream 0 None (snd deflated_read)"

definition no_options_opened :: "OpenedStream result \<times> Zip" where
  "no_options_opened = openReadStream 0 (Some no_options) (snd deflated_read)"

definition decrypt_opened :: "OpenedStream result \<times> Zip" where
  "decrypt_opened = openReadStream 0 (Some decrypt_true) (snd deflated_read)"

definition encrypted_read :: "nat option result \<times> Zip" where
  "encrypted_read = readEntry no_externals (opened encrypted_archive)"

definition mac_folder_zip :: Zip where
  "mac_folder_zip =
     zip_run no_externals [ReadEntry, OpenReadStream 0 None] (opened mac_folder_archive)"

definition truncated_offset_zip :: Zip where
  "truncated_offset_zip =
     zip_run no_externals [ReadEntry, ReadEntry] (opened truncated_offset_archive)"

definition mac_folder_entry :: EntryProperties where
  "mac_folder_entry = folder_entry_crc\<lparr>crc32 := 0\<rparr>"

text \<open>
  Two schedules. In \<open>busy\<close> another task calls \<^verbatim>\<open>readEntry\<close> while the header is being
  read, and \<^verbatim>\<open>_setAsNotMacArchive\<close> runs before \<^verbatim>\<open>_readEntry\<close> resumes. In \<open>flagged\<close>
  the size validator of a stream on the first entry receives one byte before
  \<^verbatim>\<open>_readEntry\<close> resumes: the entry has an uncertain uncompressed size of 0, so the
  validator calls \<^verbatim>\<open>_setAsMacArchive\<close>. The reads that follow: of the one entry of
  \<open>commented_archive\<close> under \<open>busy\<close>, and of the second entry of \<open>race_archive\<close>
  undisturbed and under \<open>flagged\<close>.
\<close>

definition busy :: schedule where
  "busy = quiet\<lparr>reading_header := [ReadEntry], after_entry := [SetAsNotMacArchive]\<rparr>"

definition flagged :: schedule where
  "flagged =
     quiet\<lparr>after_entry :=
             [StreamTransform 1 \<lparr>byteCount = 0, expectedByteCount = 0, vs_entry = 0\<rparr>]\<rparr>"

definition busy_read :: "nat option result \<times> Zip" where
  "busy_read = readEntry_during no_externals busy (opened commented_archive)"

definition race_first :: Zip where
  "race_first = archive_run no_externals [ReadEntryDuring quiet] (opened race_archive)"

definition race_quiet :: "nat option result \<times> Zip" where
  "race_quiet = readEntry_during no_externals quiet race_first"

definition race_flagged :: "nat option result \<times> Zip" where
  "race_flagged = readEntry_during no_externals flagged race_first"

section \<open>The claims in the words of the specification\<close>

text \<open>Bits \<open>lo\<close> to \<open>hi\<close> of a number.\<close>

definition bits :: "nat \<Rightarrow> nat \<Rightarrow> int \<Rightarrow> int" where
  "bits lo hi x = (x div 2 ^ lo) mod 2 ^ (hi - lo + 1)"

definition spec_lastModified :: "int \<Rightarrow> int \<Rightarrow> UtcDate" where
  "spec_lastModified date time =
     \<lparr>utc_year = bits 9 15 date + 1980, utc_month = bits 5 8 date - 1, utc_day = bits 0 4 date,
      utc_hour = bits 11 15 time, utc_minute = bits 5 10 time,
      utc_second = (time AND 0x1F) * 2, utc_millisecond = 0\<rparr>"

text \<open>The Mac entry signature as the specification words it.\<close>

definition one_mac_extra_field :: "'a EntryBase_scheme \<Rightarrow> bool" where
  "one_mac_extra_field e =
     (length (extraFields e) = 1 \<and> ef_id (hd (extraFields e)) = 22613
      \<and> length (ef_data (hd (extraFields e))) = 8)"

definition spec_normal_file :: "'a EntryBase_scheme \<Rightarrow> bool" where
  "spec_normal_file e =
     (versionNeededToExtract e = 20 \<and> generalPurposeBitFlag e = 8 \<and> compressionMethod e = 8
      \<and> \<not> endsWithSlash (filename e))"

definition spec_stored :: "'a EntryBase_scheme \<Rightarrow> bool" where
  "spec_stored e =
     (versionNeededToExtract e = 10 \<and> generalPurposeBitFlag e = 0 \<and> compressionMethod e = 0
      \<and> uncompressedSize e = compressedSize e)"

definition spec_symlink :: "'a EntryBase_scheme \<Rightarrow> bool" where
  "spec_symlink e =
     (spec_stored e \<and> extraFields e = [] \<and> compressedSize e \<noteq> 0
      \<and> \<not> endsWithSlash (filename e))"

definition spec_folder_or_empty_file :: "'a EntryBase_scheme \<Rightarrow> bool" where
  "spec_folder_or_empty_file e = (spec_stored e \<and> compressedSize e = 0)"

definition spec_entryMaybeMac :: "'a EntryBase_scheme \<Rightarrow> bool" where
  "spec_entryMaybeMac e =
     (versionMadeBy e = 789 \<and> len (e_comment e) = 0 \<and> \<not> e_isZip64 e
      \<and> (spec_normal_file e \<or> spec_symlink e \<or> spec_folder_or_empty_file e)
      \<and> (spec_symlink e \<or> one_mac_extra_field e))"

text \<open>
  The window that the locator of the end record scans, and a position in it that
  carries the signature and a comment length reaching the end of the window.
\<close>

definition eocdr_window_size :: "Zip \<Rightarrow> int" where
  "eocdr_window_size z = min (z_size z) (22 + 65535)"

definition eocdr_window :: "Zip \<Rightarrow> buffer" where
  "eocdr_window z =
     subarray (r_buffer (reader z)) (nat (z_size z - eocdr_window_size z)) (nat (z_size z))"

definition spec_eocdr_candidate :: "buffer \<Rightarrow> nat \<Rightarrow> bool" where
  "spec_eocdr_candidate window p =
     (p + 22 \<le> length window \<and> readUInt32LE window p = 0x06054B50
      \<and> readUInt16LE window (p + 20) = int (length window) - int p - 22)"

definition eocdr_not_found :: error where
  "eocdr_not_found = Err ''End of Central Directory Record not found''"

text \<open>The read counter counts the streams that have not ended and the reads in flight.\<close>

definition counter_ok :: "Reader \<Rightarrow> bool" where
  "counter_ok r = (readCount r = int (liveStreams r) + int (pendingReads r))"

section \<open>Invariants\<close>

text \<open>
  \<open>mac_exclusive\<close> is the exclusion of the two Mac flags. \<open>steady\<close> and \<open>evolves\<close> relate
  an archive to a later state of it: the footer offset and the re-entrancy guard are the
  same, the first entry kept by \<^verbatim>\<open>init\<close> is the same or has been taken, the exclusion
  of the Mac flags is kept, a Mac archive stays one, and the store of entries has the
  same length (\<open>steady\<close>) or has grown (\<open>evolves\<close>), the entries it had keeping their
  header offsets. \<open>anchoring\<close> holds while \<^verbatim>\<open>init\<close>
  has not yet located the central directory, \<open>anchored\<close> from then on.
\<close>

definition mac_exclusive :: "Zip \<Rightarrow> bool" where
  "mac_exclusive z = (\<not> (isMacArchive z \<and> isMaybeMacArchive z))"

definition steady :: "Zip \<Rightarrow> Zip \<Rightarrow> bool" where
  "steady z z' =
     (footerOffset z' = footerOffset z \<and> isReading z' = isReading z
      \<and> length (entries z') = length (entries z)
      \<and> map fileHeaderOffset (entries z') = map fileHeaderOffset (entries z)
      \<and> (firstEntryProps z' = firstEntryProps z \<or> firstEntryProps z' = None)
      \<and> (mac_exclusive z \<longrightarrow> mac_exclusive z')
      \<and> (isMacArchive z \<longrightarrow> isMacArchive z'))"

definition evolves :: "Zip \<Rightarrow> Zip \<Rightarrow> bool" where
  "evolves z z' =
     (footerOffset z' = footerOffset z \<and> isReading z' = isReading z
      \<and> length (entries z) \<le> length (entries z')
      \<and> take (length (entries z)) (map fileHeaderOffset (entries z'))
          = map fileHeaderOffset (entries z)
      \<and> (firstEntryProps z' = firstEntryProps z \<or> firstEntryProps z' = None)
      \<and> (mac_exclusive z \<longrightarrow> mac_exclusive z')
      \<and> (isMacArchive z \<longrightarrow> isMacArchive z'))"

definition first_entry_ok :: "Zip \<Rightarrow> bool" where
  "first_entry_ok z =
     (case firstEntryProps z of
        None \<Rightarrow> True
      | Some p \<Rightarrow> num (fileHeaderOffset p) + 30 \<le> num (footerOffset z))"

definition anchoring :: "Zip \<Rightarrow> bool" where
  "anchoring z = (\<not> isMaybeMacArchive z \<and> firstEntryProps z = None \<and> \<not> isReading z)"

definition anchored :: "Zip \<Rightarrow> bool" where
  "anchored z = (mac_exclusive z \<and> first_entry_ok z \<and> \<not> isReading z)"

section \<open>Properties\<close>

subsection \<open>Bitwise operators\<close>

lemma toInt32_mask: "n \<le> 31 \<Longrightarrow> toInt32 (mask n) = mask n"
proof -
  assume n: "n \<le> 31"
  have "(mask n :: int) < 2 ^ n" by (simp add: mask_eq_exp_minus_1)
  also have "(2::int) ^ n \<le> 2 ^ 31" using n by (intro power_increasing) auto
  finally have "(mask n :: int) < 2 ^ 31" .
  moreover have "- (2 ^ 31) \<le> (mask n :: int)"
    by (rule order_trans [of _ 0]) (simp_all add: mask_eq_exp_minus_1)
  ultimately show ?thesis
    unfolding toInt32_def by (simp add: signed_take_bit_int_eq_self)
qed

lemma js_and_mask: "n \<le> 31 \<Longrightarrow> js_and a (mask n) = take_bit n a"
  by (simp add: js_and_def toInt32_mask take_bit_eq_mask [symmetric])
     (simp add: toInt32_def take_bit_signed_take_bit)

lemma js_and_shr_mask:
  assumes "n + k \<le> 32" "n \<le> 31"
  shows "js_and (js_shr a k) (mask n) = (a div 2 ^ k) mod 2 ^ n"
proof -
  have "js_and (js_shr a k) (mask n) = take_bit n (drop_bit k (signed_take_bit 31 a))"
    using assms by (simp add: js_and_mask js_shr_def toInt32_def)
  also have "\<dots> = drop_bit k (take_bit (n + k) (signed_take_bit 31 a))"
    by (simp add: take_bit_drop_bit)
  also have "\<dots> = drop_bit k (take_bit (n + k) a)"
    using assms by (simp add: take_bit_signed_take_bit)
  also have "\<dots> = take_bit n (drop_bit k a)"
    by (simp add: take_bit_drop_bit)
  finally show ?thesis
    by (simp add: take_bit_eq_mod drop_bit_eq_div)
qed

subsection \<open>Last modification time\<close>

text \<open>
  C9. \<^verbatim>\<open>getLastModified\<close> passes to \<^verbatim>\<open>Date.UTC\<close> exactly the components the
  specification lists: day from bits 0-4 of the date, month from bits 5-8 minus 1, year
  from bits 9-15 plus 1980, second \<open>(time AND 0x1F) * 2\<close>, minute from bits 5-10 of the
  time, hour from bits 11-15, and 0 milliseconds.
\<close>

theorem getLastModified_decodes_dos_fields:
  "getLastModified e = spec_lastModified (lastModDate e) (lastModTime e)"
proof -
  let ?date = "lastModDate e" and ?time = "lastModTime e"
  have m: "(0x1F::int) = mask 5" "(0xF::int) = mask 4" "(0x7F::int) = mask 7" "(0x3F::int) = mask 6"
    by (simp_all add: mask_eq_exp_minus_1)
  have a: "js_and (js_shr ?date 9) (mask 7) = (?date div 2 ^ 9) mod 2 ^ 7"
    "js_and (js_shr ?date 5) (mask 4) = (?date div 2 ^ 5) mod 2 ^ 4"
    "js_and (js_shr ?time 11) (mask 5) = (?time div 2 ^ 11) mod 2 ^ 5"
    "js_and (js_shr ?time 5) (mask 6) = (?time div 2 ^ 5) mod 2 ^ 6"
    by (rule js_and_shr_mask; simp)+
  have b: "js_and x (mask 5) = x mod 2 ^ 5" "x AND mask 5 = x mod 2 ^ 5" for x :: int
    by (simp_all add: js_and_mask take_bit_eq_mod take_bit_eq_mask [symmetric])
  show ?thesis
    unfolding getLastModified_def dosDateTimeToDate_def spec_lastModified_def Let_def m
    unfolding a
    unfolding b bits_def
    by simp
qed

subsection \<open>Options of \<^verbatim>\<open>openReadStream\<close>\<close>

lemma options_fail_openReadStream:
  "openReadStream_options (entries z ! i) options = Inl e \<Longrightarrow>
   openReadStream i options z = (Inl e, z)"
  by (simp add: openReadStream_def)

lemma check_fail_openReadStream:
  "openReadStream_options (entries z ! i) options = Inr s \<Longrightarrow>
   openReadStream_check (entries z ! i) s = Inl e \<Longrightarrow> openReadStream i options z = (Inl e, z)"
  by (simp add: openReadStream_def)

lemma options_decrypt_value:
  "openReadStream_options this (Some options) = Inr s \<Longrightarrow>
   s_decrypt s = options_decrypt this options"
  by (auto simp: openReadStream_options_def Let_def split: sum.splits)

lemma options_crc_not_boolean:
  assumes "\<forall>b. validateCrc32 options \<noteq> Some (Bool b)"
    and "openReadStream_options this (Some options) = Inr s"
  shows "s_validateCrc32 s = (\<not> s_decompress s)"
proof -
  have "options_validateCrc32 d options = Inr (\<not> d)" for d
    using assms(1) by (auto simp: options_validateCrc32_def split: option.splits flag.splits)
  with assms(2) show ?thesis
    by (auto simp: openReadStream_options_def Let_def split: sum.splits)
qed

lemma openReadStream_Inr_stages:
  assumes "openReadStream i options z = (Inr os, z')"
  shows "\<exists>s. openReadStream_options (entries z ! i) options = Inr s
           \<and> os_stages os = pipeline_stages i (entries z ! i) s z'"
  using assms
  by (auto simp: openReadStream_def openReadStream_data_def Let_def
      split: sum.splits if_splits prod.splits)

lemma pipeline_stages_members:
  "(\<exists>c. ValidateCrc32 c \<in> set (pipeline_stages i this s z)) = s_validateCrc32 s"
  "(InflateRaw \<in> set (pipeline_stages i this s z)) = s_decompress s"
  by (auto simp: pipeline_stages_def)

text \<open>
  C1, as the sources have it. When the encryption bit of the entry (bit 0 of the general
  purpose flags) is set and \<^verbatim>\<open>decrypt\<close> is \<^verbatim>\<open>true\<close>, the call fails and leaves the
  archive as it was: with "Decryption is not supported", unless one of the options
  \<^verbatim>\<open>validateCrc32\<close>, \<^verbatim>\<open>start\<close> and \<^verbatim>\<open>end\<close> is rejected first, and then with that
  error. When the bit is clear, \<^verbatim>\<open>decrypt: true\<close> is ignored: the call does what it does
  with \<^verbatim>\<open>decrypt: false\<close>.
\<close>

theorem openReadStream_decrypt:
  assumes "decrypt options = Some (Bool True)"
  shows "(isEncrypted (entries z ! i) \<longrightarrow>
           openReadStream i (Some options) z =
             (case openReadStream_options (entries z ! i) (Some options) of
                Inl e \<Rightarrow> (Inl e, z)
              | Inr s \<Rightarrow> (Inl (Err ''Decryption is not supported''), z)))
       \<and> (\<not> isEncrypted (entries z ! i) \<longrightarrow>
           openReadStream i (Some options) z =
           openReadStream i (Some (options\<lparr>decrypt := Some (Bool False)\<rparr>)) z)"
proof (intro conjI impI)
  let ?e = "entries z ! i"
  assume enc: "isEncrypted ?e"
  show "openReadStream i (Some options) z =
             (case openReadStream_options ?e (Some options) of
                Inl e \<Rightarrow> (Inl e, z)
              | Inr s \<Rightarrow> (Inl (Err ''Decryption is not supported''), z))"
  proof (cases "openReadStream_options ?e (Some options)")
    case (Inl e)
    then show ?thesis by (simp add: options_fail_openReadStream)
  next
    case (Inr s)
    then have "s_decrypt s" using assms enc
      by (simp add: options_decrypt_value options_decrypt_def)
    then have "openReadStream_check ?e s = Inl (Err ''Decryption is not supported'')"
      by (simp add: openReadStream_check_def)
    with Inr show ?thesis by (simp add: check_fail_openReadStream)
  qed
next
  let ?e = "entries z ! i"
  assume "\<not> isEncrypted ?e"
  then have "openReadStream_options ?e (Some options)
      = openReadStream_options ?e (Some (options\<lparr>decrypt := Some (Bool False)\<rparr>))"
    using assms
    by (simp add: openReadStream_options_def options_decrypt_def options_decompress_def
        options_validateCrc32_def options_start_def options_end_def cong: sum.case_cong)
  then show "openReadStream i (Some options) z =
           openReadStream i (Some (options\<lparr>decrypt := Some (Bool False)\<rparr>)) z"
    by (simp add: openReadStream_def)
qed

theorem openReadStream_decrypt_witness:
  "decrypt decrypt_true = Some (Bool True)
   \<and> fst encrypted_read = Inr (Some 0)
   \<and> isEncrypted (entries (snd encrypted_read) ! 0)
   \<and> openReadStream 0 (Some decrypt_true) (snd encrypted_read)
       = (Inl (Err ''Decryption is not supported''), snd encrypted_read)
   \<and> \<not> isEncrypted (entries (snd deflated_read) ! 0)
   \<and> openReadStream 0 (Some decrypt_true) (snd deflated_read)
       = openReadStream 0 (Some (decrypt_true\<lparr>decrypt := Some (Bool False)\<rparr>)) (snd deflated_read)"
proof -
  have d: "decrypt decrypt_true = Some (Bool True)"
    by (simp add: decrypt_true_def no_options_def)
  have a: "fst encrypted_read = Inr (Some 0)"
    "isEncrypted (entries (snd encrypted_read) ! 0)"
    "\<not> isEncrypted (entries (snd deflated_read) ! 0)"
    "openReadStream_options (entries (snd encrypted_read) ! 0) (Some decrypt_true)
       = Inr \<lparr>s_decompress = False, s_decrypt = True, s_validateCrc32 = True, s_start = 0,
              s_end = 12\<rparr>"
    by code_simp+
  from openReadStream_decrypt [OF d, of "snd encrypted_read" 0]
    openReadStream_decrypt [OF d, of "snd deflated_read" 0] d a
  show ?thesis by simp
qed

theorem openReadStream_decrypt_counterexample:
  "decrypt decrypt_true = Some (Bool True)
   \<and> fst deflated_read = Inr (Some 0)
   \<and> \<not> isEncrypted (entries (snd deflated_read) ! 0)
   \<and> fst decrypt_opened
       = Inr \<lparr>os_source = \<lparr>stream_id = Some 0, stream_data = [0x03, 0x00]\<rparr>,
              os_stages = [InflateRaw, ValidateUncompressedSize 0]\<rparr>"
  by code_simp


text \<open>
  C2, as the sources have it. With an options object whose \<^verbatim>\<open>validateCrc32\<close> is not a
  boolean, the CRC32 setting is the negation of the decompress setting, and a stream
  that is returned has a CRC32 validator exactly when it has no inflate stage. With no
  options object the CRC32 setting is \<^verbatim>\<open>true\<close> whatever the decompress setting is: the
  returned stream has a CRC32 validator, and an inflate stage exactly when the entry is
  compressed.
\<close>

theorem openReadStream_validateCrc32_default:
  assumes "\<forall>b. validateCrc32 options \<noteq> Some (Bool b)"
  shows "(openReadStream_options (entries z ! i) (Some options) = Inr s \<longrightarrow>
            s_validateCrc32 s = (\<not> s_decompress s))
       \<and> (openReadStream i (Some options) z = (Inr os, z') \<longrightarrow>
            (\<exists>c. ValidateCrc32 c \<in> set (os_stages os)) = (InflateRaw \<notin> set (os_stages os)))
       \<and> (openReadStream_options (entries z ! i) None = Inr s0 \<longrightarrow>
            s_validateCrc32 s0 \<and> s_decompress s0 = isCompressed (entries z ! i))
       \<and> (openReadStream i None z = (Inr os0, z0) \<longrightarrow>
            (\<exists>c. ValidateCrc32 c \<in> set (os_stages os0))
            \<and> (InflateRaw \<in> set (os_stages os0)) = isCompressed (entries z ! i))"
proof (intro conjI impI)
  assume "openReadStream_options (entries z ! i) (Some options) = Inr s"
  with assms show "s_validateCrc32 s = (\<not> s_decompress s)"
    by (rule options_crc_not_boolean)
next
  assume "openReadStream i (Some options) z = (Inr os, z')"
  then obtain t where t: "openReadStream_options (entries z ! i) (Some options) = Inr t"
    "os_stages os = pipeline_stages i (entries z ! i) t z'"
    using openReadStream_Inr_stages by blast
  from assms t(1) have "s_validateCrc32 t = (\<not> s_decompress t)"
    by (rule options_crc_not_boolean)
  then show "(\<exists>c. ValidateCrc32 c \<in> set (os_stages os)) = (InflateRaw \<notin> set (os_stages os))"
    by (simp add: t(2) pipeline_stages_members)
next
  assume "openReadStream_options (entries z ! i) None = Inr s0"
  then show "s_validateCrc32 s0" "s_decompress s0 = isCompressed (entries z ! i)"
    by (auto simp: openReadStream_options_def)
next
  assume "openReadStream i None z = (Inr os0, z0)"
  then obtain t where t: "openReadStream_options (entries z ! i) None = Inr t"
    "os_stages os0 = pipeline_stages i (entries z ! i) t z0"
    using openReadStream_Inr_stages by blast
  from t(1) have "s_validateCrc32 t" "s_decompress t = isCompressed (entries z ! i)"
    by (auto simp: openReadStream_options_def)
  then show "\<exists>c. ValidateCrc32 c \<in> set (os_stages os0)"
    "(InflateRaw \<in> set (os_stages os0)) = isCompressed (entries z ! i)"
    by (simp_all add: t(2) pipeline_stages_members)
qed


theorem openReadStream_validateCrc32_default_witness:
  "(\<forall>b. validateCrc32 no_options \<noteq> Some (Bool b))
   \<and> openReadStream_options (entries (snd deflated_read) ! 0) (Some no_options)
       = Inr \<lparr>s_decompress = True, s_decrypt = False, s_validateCrc32 = False, s_start = 0,
              s_end = 2\<rparr>
   \<and> fst no_options_opened
       = Inr \<lparr>os_source = \<lparr>stream_id = Some 0, stream_data = [0x03, 0x00]\<rparr>,
              os_stages = [InflateRaw, ValidateUncompressedSize 0]\<rparr>
   \<and> fst deflated_opened
       = Inr \<lparr>os_source = \<lparr>stream_id = Some 0, stream_data = [0x03, 0x00]\<rparr>,
              os_stages = [InflateRaw, ValidateUncompressedSize 0, ValidateCrc32 0]\<rparr>"
proof -
  have h: "\<forall>b. validateCrc32 no_options \<noteq> Some (Bool b)"
    by (simp add: no_options_def)
  have a: "openReadStream_options (entries (snd deflated_read) ! 0) (Some no_options)
       = Inr \<lparr>s_decompress = True, s_decrypt = False, s_validateCrc32 = False, s_start = 0,
              s_end = 2\<rparr>"
    "fst no_options_opened
       = Inr \<lparr>os_source = \<lparr>stream_id = Some 0, stream_data = [0x03, 0x00]\<rparr>,
              os_stages = [InflateRaw, ValidateUncompressedSize 0]\<rparr>"
    "fst deflated_opened
       = Inr \<lparr>os_source = \<lparr>stream_id = Some 0, stream_data = [0x03, 0x00]\<rparr>,
              os_stages = [InflateRaw, ValidateUncompressedSize 0, ValidateCrc32 0]\<rparr>"
    "isCompressed (entries (snd deflated_read) ! 0)"
    by code_simp+
  define os where "os = \<lparr>os_source = \<lparr>stream_id = Some 0, stream_data = [0x03, 0x00 :: byte]\<rparr>,
              os_stages = [InflateRaw, ValidateUncompressedSize 0]\<rparr>"
  define os0 where "os0 = \<lparr>os_source = \<lparr>stream_id = Some 0, stream_data = [0x03, 0x00 :: byte]\<rparr>,
              os_stages = [InflateRaw, ValidateUncompressedSize 0, ValidateCrc32 0]\<rparr>"
  have r: "openReadStream 0 (Some no_options) (snd deflated_read) = (Inr os, snd no_options_opened)"
    using a(2) by (simp add: no_options_opened_def prod_eq_iff os_def)
  have r0: "openReadStream 0 None (snd deflated_read) = (Inr os0, snd deflated_opened)"
    using a(3) by (simp add: deflated_opened_def prod_eq_iff os0_def)
  from openReadStream_validateCrc32_default [OF h, of "snd deflated_read" 0 _ os
      "snd no_options_opened" _ os0 "snd deflated_opened"] r r0 a(4)
  have "(\<exists>c. ValidateCrc32 c \<in> set (os_stages os)) = (InflateRaw \<notin> set (os_stages os))
      \<and> (\<exists>c. ValidateCrc32 c \<in> set (os_stages os0)) \<and> InflateRaw \<in> set (os_stages os0)"
    by blast
  with h a show ?thesis by blast
qed

theorem openReadStream_validateCrc32_default_counterexample:
  "fst deflated_read = Inr (Some 0)
   \<and> isCompressed (entries (snd deflated_read) ! 0)
   \<and> openReadStream_options (entries (snd deflated_read) ! 0) None
       = Inr \<lparr>s_decompress = True, s_decrypt = False, s_validateCrc32 = True, s_start = 0,
              s_end = 2\<rparr>
   \<and> fst deflated_opened
       = Inr \<lparr>os_source = \<lparr>stream_id = Some 0, stream_data = [0x03, 0x00]\<rparr>,
              os_stages = [InflateRaw, ValidateUncompressedSize 0, ValidateCrc32 0]\<rparr>"
  by code_simp


subsection \<open>Entry count\<close>

text \<open>
  How far the increment is right. A count that is consistent is left as it is. A count
  that is too low by at most 65536 entries is raised by 65536, the smallest positive
  multiple of 65536 that reaches the minimum.
\<close>

lemma recalculateEntryCount_consistent:
  assumes "(num (entryCount z) - n) * (if isMacArchive z then CDH_MAX_LENGTH_MAC else CDH_MAX_LENGTH)
           \<ge> num (centralDirectoryOffset z) + num (centralDirectorySize z) - c"
  shows "recalculateEntryCount n c z = (False, z)"
  using assms by (simp add: recalculateEntryCount_def)

lemma js_and_bit16:
  assumes "1 \<le> d" "d \<le> 65536"
  shows "js_and (d + 65535) 65536 = 65536"
proof -
  let ?x = "d + 65535"
  have r: "- (2 ^ 31) \<le> ?x" "?x < 2 ^ 31" using assms by simp_all
  have "toInt32 ?x = ?x" unfolding toInt32_def using r by (simp add: signed_take_bit_int_eq_self)
  moreover have "toInt32 65536 = 65536" unfolding toInt32_def by simp
  moreover have "?x div 65536 = 1"
  proof -
    have "?x = (d - 1) + 65536 * 1" by simp
    moreover have "((d - 1) + 65536 * 1) div 65536 = 1 + (d - 1) div 65536"
      by (rule div_mult_self2) simp
    moreover have "(d - 1) div 65536 = 0" using assms by simp
    ultimately show ?thesis by simp
  qed
  then have b: "bit ?x 16" by (simp add: bit_iff_odd)
  have "?x AND 2 ^ 16 = 2 ^ 16"
  proof (rule bit_eqI)
    fix n show "bit (?x AND 2 ^ 16) n = bit (2 ^ 16 :: int) n"
      unfolding bit_and_iff bit_exp_iff using b by auto
  qed
  ultimately show ?thesis by (simp add: js_and_def)
qed

lemma recalculateEntryCount_one_multiple:
  assumes "(num (entryCount z) - n) * (if isMacArchive z then CDH_MAX_LENGTH_MAC else CDH_MAX_LENGTH)
           < num (centralDirectoryOffset z) + num (centralDirectorySize z) - c"
    and "ceil_div (num (centralDirectoryOffset z) + num (centralDirectorySize z) - c)
           CDH_MAX_LENGTH_MAC - (num (entryCount z) - n) = d"
    and "1 \<le> d" "d \<le> 65536"
  shows "recalculateEntryCount n c z = (True, z\<lparr>entryCount := Some (num (entryCount z) + 65536)\<rparr>)"
  using assms js_and_bit16 [of d] by (simp add: recalculateEntryCount_def Let_def)

text \<open>
  C3, at the archive state \<open>grown_zip\<close>, which \<^verbatim>\<open>_locateCentralDirectory\<close> reaches from
  \<open>claimed_zip\<close>: one entry is declared, the central directory has 8589934592 bytes
  left, so at least 130959 entries remain and the count is impossibly low.
  \<^verbatim>\<open>_recalculateEntryCount\<close> returns \<^verbatim>\<open>true\<close> and adds
  \<open>(130959 - 1 + 65535) AND 0x10000 = 0\<close>: the count stays 1, where the smallest
  multiple of 65536 that reaches the minimum is 131072.
\<close>

theorem recalculateEntryCount_misses_second_multiple:
  "locateCentralDirectory claimed_zip
     = lcd_probe (snd (lcd_adjust claimed_zip)) (fst (lcd_adjust claimed_zip))
   \<and> fst (lcd_adjust claimed_zip) = grown_zip
   \<and> recalculateEntryCount 0 0 grown_zip = (True, grown_zip)
   \<and> entryCount grown_zip = Some 1
   \<and> ceil_div (num (centralDirectoryOffset grown_zip) + num (centralDirectorySize grown_zip) - 0)
        CDH_MAX_LENGTH_MAC = 130959
   \<and> js_and (130959 - (1 - 0) + 65535) 65536 = 0"
proof -
  have "locateCentralDirectory claimed_zip
     = lcd_probe (snd (lcd_adjust claimed_zip)) (fst (lcd_adjust claimed_zip))"
    by (simp add: locateCentralDirectory_def claimed_zip_def Zip_new_def default_options_def
        num_def js_rem_def FOUR_GIB_def EOCDR_WITHOUT_COMMENT_SIZE_def CDH_MIN_LENGTH_def)
  moreover have "fst (lcd_adjust claimed_zip) = grown_zip
   \<and> recalculateEntryCount 0 0 grown_zip = (True, grown_zip)
   \<and> entryCount grown_zip = Some 1
   \<and> ceil_div (num (centralDirectoryOffset grown_zip) + num (centralDirectorySize grown_zip) - 0)
        CDH_MAX_LENGTH_MAC = 130959
   \<and> js_and (130959 - (1 - 0) + 65535) 65536 = 0"
    by (simp add: lcd_adjust_def recalculateEntryCount_def grown_zip_def claimed_zip_def Zip_new_def
        num_def CDH_MAX_LENGTH_MAC_def CDH_MIN_LENGTH_def MAC_CDH_EXTRA_FIELDS_LENGTH_def
        MAC_CDH_EXTRA_FIELD_LENGTH_def ceil_div_def js_and_def toInt32_def Let_def)
  ultimately show ?thesis by blast
qed


subsection \<open>Mac entry signature\<close>

lemma len_nonneg: "0 \<le> len b"
  by (cases b) auto

text \<open>
  C4, as the sources have it: the signature of the specification, and for a folder or
  an empty file a CRC32 of 0 as well. The first entry must also have header offset 0.
\<close>

theorem entryMaybeMac_signature:
  "(entryMaybeMac e \<longleftrightarrow>
      versionMadeBy e = 789 \<and> len (e_comment e) = 0 \<and> \<not> e_isZip64 e
      \<and> (spec_normal_file e \<or> spec_symlink e \<or> (spec_folder_or_empty_file e \<and> crc32 e = 0))
      \<and> (spec_symlink e \<or> one_mac_extra_field e))
   \<and> (firstEntryMaybeMac e \<longleftrightarrow> fileHeaderOffset e = Some 0 \<and> entryMaybeMac e)"
proof
  show "entryMaybeMac e \<longleftrightarrow>
      versionMadeBy e = 789 \<and> len (e_comment e) = 0 \<and> \<not> e_isZip64 e
      \<and> (spec_normal_file e \<or> spec_symlink e \<or> (spec_folder_or_empty_file e \<and> crc32 e = 0))
      \<and> (spec_symlink e \<or> one_mac_extra_field e)"
    using len_nonneg [of "e_comment e"]
    unfolding entryMaybeMac_def spec_normal_file_def spec_symlink_def spec_folder_or_empty_file_def
      spec_stored_def one_mac_extra_field_def MAC_CDH_EXTRA_FIELD_ID_def
      MAC_CDH_EXTRA_FIELD_LENGTH_def Let_def
    by (cases "extraFields e") (auto simp: hd_conv_nth)
  show "firstEntryMaybeMac e \<longleftrightarrow> fileHeaderOffset e = Some 0 \<and> entryMaybeMac e"
    by (simp add: firstEntryMaybeMac_def)
qed

lemmas spec_mac_defs = spec_normal_file_def spec_symlink_def spec_folder_or_empty_file_def
      spec_stored_def one_mac_extra_field_def spec_entryMaybeMac_def

theorem entryMaybeMac_signature_witness:
  "entryMaybeMac mac_folder_entry \<and> firstEntryMaybeMac mac_folder_entry"
  using entryMaybeMac_signature [of mac_folder_entry]
  by (simp add: mac_folder_entry_def folder_entry_crc_def spec_mac_defs)

theorem entryMaybeMac_signature_counterexample:
  "firstEntryProps (opened crc_folder_archive) = Some folder_entry_crc
   \<and> \<not> isMaybeMacArchive (opened crc_folder_archive)
   \<and> spec_entryMaybeMac folder_entry_crc \<and> \<not> entryMaybeMac folder_entry_crc"
proof -
  have "firstEntryProps (opened crc_folder_archive) = Some folder_entry_crc"
    "\<not> isMaybeMacArchive (opened crc_folder_archive)"
    by code_simp+
  moreover have "spec_entryMaybeMac folder_entry_crc \<and> \<not> entryMaybeMac folder_entry_crc"
    by (simp add: folder_entry_crc_def spec_mac_defs entryMaybeMac_def)
  ultimately show ?thesis by simp
qed


subsection \<open>End of central directory record\<close>

lemma byteAt_range: "0 \<le> byteAt b i" "byteAt b i < 256"
  using uint_lt2p [of "b ! i"] by (auto simp: byteAt_def)

lemma signature_low_byte:
  assumes "readUInt32LE b p = 0x06054B50"
  shows "byteAt b p = 0x50"
proof -
  have "readUInt32LE b p
      = byteAt b p + 256 * (byteAt b (p + 1) + 256 * byteAt b (p + 2) + 65536 * byteAt b (p + 3))"
    by (simp add: readUInt32LE_def)
  then have "readUInt32LE b p mod 256 = byteAt b p mod 256"
    by (simp only: mod_mult_self2)
  also have "byteAt b p mod 256 = byteAt b p"
    using byteAt_range [of b p] by simp
  finally show ?thesis using assms by simp
qed

lemma eocdr_at_iff:
  "eocdr_at b n p \<longleftrightarrow>
     readUInt32LE b p = 0x06054B50 \<and> readUInt16LE b (p + 20) = n - int p - 22"
  by (auto simp: eocdr_at_def EOCDR_WITHOUT_COMMENT_SIZE_def signature_low_byte)

lemma eocdr_scan_None:
  "eocdr_scan b n k = None \<longleftrightarrow> (\<forall>q\<le>k. \<not> eocdr_at b n q)"
  by (induction k) (auto simp: le_Suc_eq)

lemma eocdr_scan_Some:
  "eocdr_scan b n k = Some p \<longleftrightarrow>
     p \<le> k \<and> eocdr_at b n p \<and> (\<forall>q. p < q \<and> q \<le> k \<longrightarrow> \<not> eocdr_at b n q)"
proof (induction k)
  case 0
  then show ?case by auto
next
  case (Suc k)
  show ?case
  proof (cases "eocdr_at b n (Suc k)")
    case True
    then show ?thesis
      by (auto simp: not_less_eq_eq dest: le_neq_implies_less)
  next
    case False
    then show ?thesis
      using Suc by (auto simp: le_Suc_eq)
  qed
qed

lemma locateEocdr_read:
  assumes "r_isOpen (reader z)" "z_size z \<le> int (length (r_buffer (reader z)))" "22 \<le> z_size z"
  shows "reader_read (reader z) (z_size z - eocdr_window_size z) (eocdr_window_size z)
           = Inr (eocdr_window z)"
    and "int (length (eocdr_window z)) = eocdr_window_size z"
  using assms
  by (auto simp: reader_read_def bufferReader_read_def eocdr_window_def eocdr_window_size_def
      subarray_def min_def Let_def)

lemma locateEocdr_unfold:
  assumes "r_isOpen (reader z)" "z_size z \<le> int (length (r_buffer (reader z)))" "22 \<le> z_size z"
  shows "locateEocdr z =
     (case eocdr_scan (eocdr_window z) (eocdr_window_size z) (nat (eocdr_window_size z - 22)) of
        Some position \<Rightarrow>
          (Inr (drop position (eocdr_window z)),
           z\<lparr>footerOffset := Some (z_size z - eocdr_window_size z + int position)\<rparr>)
      | None \<Rightarrow> (Inl eocdr_not_found, z))"
proof -
  have "(if z_size z < EOCDR_WITHOUT_COMMENT_SIZE + MAX_EOCDR_COMMENT_SIZE then z_size z
         else EOCDR_WITHOUT_COMMENT_SIZE + MAX_EOCDR_COMMENT_SIZE) = eocdr_window_size z"
    by (simp add: eocdr_window_size_def EOCDR_WITHOUT_COMMENT_SIZE_def MAX_EOCDR_COMMENT_SIZE_def)
  then show ?thesis
    using assms(3) locateEocdr_read(1) [OF assms]
    by (simp add: locateEocdr_def Let_def eocdr_not_found_def EOCDR_WITHOUT_COMMENT_SIZE_def
        split: option.splits)
qed

lemma candidate_iff:
  assumes "int (length w) = n"
  shows "spec_eocdr_candidate w p \<longleftrightarrow> p \<le> nat (n - 22) \<and> 22 \<le> n \<and> eocdr_at w n p"
  using assms by (auto simp: spec_eocdr_candidate_def eocdr_at_iff)

text \<open>
  C5. With the reader open and the archive inside its bytes: an archive shorter than 22
  bytes has no end record; otherwise the locator reads the last \<open>min(size, 22 + 65535)\<close>
  bytes and accepts the largest position of that window with the signature
  \<open>0x06054B50\<close> whose comment length at \<open>p + 20\<close> is \<open>windowEnd - p - 22\<close>: it records the
  absolute offset of that position as \<^verbatim>\<open>footerOffset\<close> and returns the window from there
  on. Without such a position it fails with "End of Central Directory Record not found".
\<close>

theorem locateEocdr_finds_last_record:
  assumes "r_isOpen (reader z)" and "z_size z \<le> int (length (r_buffer (reader z)))"
  shows "(z_size z < 22 \<longrightarrow> locateEocdr z = (Inl eocdr_not_found, z))
       \<and> (22 \<le> z_size z \<longrightarrow>
            (\<forall>p. spec_eocdr_candidate (eocdr_window z) p
                  \<and> (\<forall>q. p < q \<longrightarrow> \<not> spec_eocdr_candidate (eocdr_window z) q) \<longrightarrow>
                 locateEocdr z =
                   (Inr (drop p (eocdr_window z)),
                    z\<lparr>footerOffset := Some (z_size z - eocdr_window_size z + int p)\<rparr>))
          \<and> ((\<forall>p. \<not> spec_eocdr_candidate (eocdr_window z) p) \<longrightarrow>
                 locateEocdr z = (Inl eocdr_not_found, z)))"
proof (intro conjI impI allI)
  assume "z_size z < 22"
  then show "locateEocdr z = (Inl eocdr_not_found, z)"
    by (simp add: locateEocdr_def eocdr_not_found_def EOCDR_WITHOUT_COMMENT_SIZE_def
        MAX_EOCDR_COMMENT_SIZE_def)
next
  fix p
  assume big: "22 \<le> z_size z"
    and p: "spec_eocdr_candidate (eocdr_window z) p
            \<and> (\<forall>q. p < q \<longrightarrow> \<not> spec_eocdr_candidate (eocdr_window z) q)"
  let ?w = "eocdr_window z" and ?n = "eocdr_window_size z"
  have len: "int (length ?w) = ?n" using assms big by (rule locateEocdr_read(2))
  have n22: "22 \<le> ?n" using big by (simp add: eocdr_window_size_def)
  have "eocdr_scan ?w ?n (nat (?n - 22)) = Some p"
    unfolding eocdr_scan_Some using p n22 by (auto simp: candidate_iff [OF len])
  then show "locateEocdr z =
      (Inr (drop p ?w), z\<lparr>footerOffset := Some (z_size z - ?n + int p)\<rparr>)"
    by (simp add: locateEocdr_unfold [OF assms big])
next
  assume big: "22 \<le> z_size z" and none: "\<forall>p. \<not> spec_eocdr_candidate (eocdr_window z) p"
  let ?w = "eocdr_window z" and ?n = "eocdr_window_size z"
  have len: "int (length ?w) = ?n" using assms big by (rule locateEocdr_read(2))
  have n22: "22 \<le> ?n" using big by (simp add: eocdr_window_size_def)
  have "eocdr_scan ?w ?n (nat (?n - 22)) = None"
    unfolding eocdr_scan_None using none n22 by (auto simp: candidate_iff [OF len])
  then show "locateEocdr z = (Inl eocdr_not_found, z)"
    by (simp add: locateEocdr_unfold [OF assms big])
qed


lemma empty_archive_window: "eocdr_window empty_archive_zip = empty_archive"
  by (simp add: eocdr_window_def eocdr_window_size_def empty_archive_zip_def Zip_new_def
      Reader_new_def empty_archive_def subarray_def)

lemma empty_archive_candidates:
  "spec_eocdr_candidate empty_archive p \<longleftrightarrow> p = 0"
proof -
  have "p = 0 \<or> p = 1 \<or> p = 2 \<or> 2 < p" by arith
  then show ?thesis
    by (elim disjE)
       (simp_all add: spec_eocdr_candidate_def empty_archive_def readUInt32LE_def readUInt16LE_def
          byteAt_def)
qed

theorem locateEocdr_finds_last_record_witness:
  "r_isOpen (reader empty_archive_zip)
   \<and> z_size empty_archive_zip \<le> int (length (r_buffer (reader empty_archive_zip)))
   \<and> 22 \<le> z_size empty_archive_zip
   \<and> spec_eocdr_candidate (eocdr_window empty_archive_zip) 0
   \<and> locateEocdr empty_archive_zip
       = (Inr empty_archive, empty_archive_zip\<lparr>footerOffset := Some 0\<rparr>)"
proof -
  have h: "r_isOpen (reader empty_archive_zip)"
    "z_size empty_archive_zip \<le> int (length (r_buffer (reader empty_archive_zip)))"
    "22 \<le> z_size empty_archive_zip" "eocdr_window_size empty_archive_zip = 24"
    by (simp_all add: empty_archive_zip_def Zip_new_def Reader_new_def empty_archive_def
        eocdr_window_size_def)
  from locateEocdr_finds_last_record [OF h(1,2)] h(3)
  have "spec_eocdr_candidate (eocdr_window empty_archive_zip) 0
                  \<and> (\<forall>q. 0 < q \<longrightarrow> \<not> spec_eocdr_candidate (eocdr_window empty_archive_zip) q) \<longrightarrow>
                 locateEocdr empty_archive_zip =
                   (Inr (drop 0 (eocdr_window empty_archive_zip)),
                    empty_archive_zip\<lparr>footerOffset := Some (z_size empty_archive_zip
                        - eocdr_window_size empty_archive_zip + int 0)\<rparr>)"
    by blast
  then show ?thesis
    using h by (simp add: empty_archive_window empty_archive_candidates)
       (simp add: empty_archive_zip_def Zip_new_def)
qed

subsection \<open>Read counter\<close>

lemma filter_Not_update:
  "i < length xs \<Longrightarrow> \<not> xs ! i \<Longrightarrow>
   Suc (length (filter Not (xs[i := True]))) = length (filter Not xs)"
proof (induction xs arbitrary: i)
  case Nil
  then show ?case by simp
next
  case (Cons x xs)
  then show ?case by (cases i) auto
qed

lemma counter_ok_onEnd: "counter_ok r \<Longrightarrow> counter_ok (onEnd sid r)"
  using filter_Not_update [of sid "streamEnded r"]
  by (auto simp: counter_ok_def onEnd_def liveStreams_def)

lemma counter_ok_createReadStream: "counter_ok r \<Longrightarrow> counter_ok (snd (createReadStream s l r))"
  by (auto simp: counter_ok_def createReadStream_def liveStreams_def Let_def split: sum.splits)

lemma counter_ok_step: "counter_ok r \<Longrightarrow> counter_ok (reader_step r op)"
proof (cases op)
  case (OpReadBegin s l)
  assume "counter_ok r"
  then show ?thesis using OpReadBegin
    by (auto simp: counter_ok_def read_begin_def liveStreams_def)
next
  case OpReadSettle
  assume "counter_ok r"
  then show ?thesis using OpReadSettle
    by (auto simp: counter_ok_def read_settle_def liveStreams_def)
qed (auto simp: counter_ok_onEnd counter_ok_createReadStream)

lemma counter_ok_run: "counter_ok r \<Longrightarrow> counter_ok (reader_run ops r)"
  unfolding reader_run_def by (induction ops arbitrary: r) (auto simp: counter_ok_step)

lemma counter_ok_call: "counter_ok r \<Longrightarrow> counter_ok (reader_call_step r c)"
proof (cases c)
  case CallOpen
  assume "counter_ok r"
  then show ?thesis using CallOpen
    by (auto simp: counter_ok_def reader_open_def liveStreams_def)
next
  case (CallClose during)
  assume "counter_ok r"
  then have "counter_ok (reader_run during r)" by (rule counter_ok_run)
  with \<open>counter_ok r\<close> show ?thesis using CallClose
    by (auto simp: reader_close_def Let_def)
       (auto simp: counter_ok_def liveStreams_def)
next
  case (Between op)
  assume "counter_ok r"
  then show ?thesis using Between by (simp add: counter_ok_step)
qed

lemma counter_ok_after: "counter_ok (reader_after b calls)"
proof -
  have "counter_ok r \<Longrightarrow> counter_ok (foldl reader_call_step r calls)" for r
    by (induction calls arbitrary: r) (auto simp: counter_ok_call)
  moreover have "counter_ok (Reader_new b)"
    by (simp add: counter_ok_def Reader_new_def liveStreams_def)
  ultimately show ?thesis by (simp add: reader_after_def)
qed

lemma all_ended_no_live: "(\<forall>e\<in>set xs. e) \<Longrightarrow> filter Not xs = []"
  by (induction xs) auto


text \<open>
  C10. After any calls, the read counter of a reader is the number of its streams that
  have not ended plus the number of reads in flight. A stream of nonzero length adds one
  at its creation; the first of its \<^verbatim>\<open>end\<close>, \<^verbatim>\<open>error\<close> and \<^verbatim>\<open>close\<close> events takes
  one away and later ones change nothing; a stream of length zero leaves the reader as
  it is and has no listener. So when every stream has ended and every read has settled
  the counter is zero and \<^verbatim>\<open>close\<close> succeeds.
\<close>

theorem reader_read_counter:
  "readCount (reader_after b calls)
     = int (liveStreams (reader_after b calls)) + int (pendingReads (reader_after b calls))
   \<and> (createReadStream start length' r = (Inr s, r') \<and> length' \<noteq> 0 \<longrightarrow>
        readCount r' = readCount r + 1 \<and> stream_id s = Some (length (streamEnded r))
        \<and> streamEnded r' = streamEnded r @ [False])
   \<and> (sid < length (streamEnded r) \<longrightarrow>
        (if streamEnded r ! sid then onEnd sid r = r
         else readCount (onEnd sid r) = readCount r - 1
              \<and> streamEnded (onEnd sid r) = (streamEnded r)[sid := True]))
   \<and> (createReadStream start 0 r = (Inr s0, r0) \<longrightarrow>
        r0 = r \<and> s0 = \<lparr>stream_id = None, stream_data = []\<rparr> \<and> emit s0 ev r = r)
   \<and> ((\<forall>e\<in>set (streamEnded (reader_after b calls)). e) \<and> pendingReads (reader_after b calls) = 0 \<longrightarrow>
        readCount (reader_after b calls) = 0
        \<and> (r_isOpen (reader_after b calls) \<longrightarrow>
             reader_close during (reader_after b calls)
               = (Inr (), (reader_after b calls)\<lparr>r_isOpen := False\<rparr>)))"
proof (intro conjI impI)
  show inv: "readCount (reader_after b calls)
     = int (liveStreams (reader_after b calls)) + int (pendingReads (reader_after b calls))"
    using counter_ok_after [of b calls] by (simp add: counter_ok_def)
  {
    assume h: "(\<forall>e\<in>set (streamEnded (reader_after b calls)). e) \<and> pendingReads (reader_after b calls) = 0"
    from h have a: "\<forall>e\<in>set (streamEnded (reader_after b calls)). e"
      and p: "pendingReads (reader_after b calls) = 0" by blast+
    from inv show zero: "readCount (reader_after b calls) = 0"
      by (simp add: liveStreams_def all_ended_no_live [OF a] p)
    assume "r_isOpen (reader_after b calls)"
    then show "reader_close during (reader_after b calls)
               = (Inr (), (reader_after b calls)\<lparr>r_isOpen := False\<rparr>)"
      using zero by (simp add: reader_close_def)
  }
next
  assume "createReadStream start length' r = (Inr s, r') \<and> length' \<noteq> 0"
  then show "readCount r' = readCount r + 1" "stream_id s = Some (length (streamEnded r))"
    "streamEnded r' = streamEnded r @ [False]"
    by (auto simp: createReadStream_def Let_def split: if_splits sum.splits)
next
  assume "sid < length (streamEnded r)"
  then show "if streamEnded r ! sid then onEnd sid r = r
         else readCount (onEnd sid r) = readCount r - 1
              \<and> streamEnded (onEnd sid r) = (streamEnded r)[sid := True]"
    by (simp add: onEnd_def)
next
  assume "createReadStream start 0 r = (Inr s0, r0)"
  then show "r0 = r" "s0 = \<lparr>stream_id = None, stream_data = []\<rparr>" "emit s0 ev r = r"
    by (auto simp: createReadStream_def split: if_splits)
qed

theorem reader_read_counter_witness:
  "pendingReads (reader_after [1, 2, 3] two_events) = 0
   \<and> r_isOpen (reader_after [1, 2, 3] two_events)
   \<and> streamEnded (reader_after [1, 2, 3] two_events) = [True]
   \<and> readCount (reader_after [1, 2, 3] two_events) = 0
   \<and> reader_close [] (reader_after [1, 2, 3] two_events)
       = (Inr (), (reader_after [1, 2, 3] two_events)\<lparr>r_isOpen := False\<rparr>)"
proof -
  have e: "reader_after [1, 2, 3] two_events
      = \<lparr>r_isOpen = True, readCount = 0, r_buffer = [1, 2, 3], streamEnded = [True],
         pendingReads = 0\<rparr>"
    by (simp add: reader_after_def two_events_def Reader_new_def reader_open_def
        createReadStream_def bufferReader_createReadStream_def subarray_def onEnd_def
        read_begin_def read_settle_def Let_def)
  show ?thesis
    using reader_read_counter [of "[1, 2, 3]" two_events _ _ _ _ _ _ _ _ _ "[]"]
    by (simp add: e)
qed


subsection \<open>Frames of the archive operations\<close>

lemma steady_refl [simp]: "steady z z"
  by (simp add: steady_def)

lemma steady_trans: "steady a b \<Longrightarrow> steady b c \<Longrightarrow> steady a c"
  unfolding steady_def by auto

lemma steady_recalculateEntryCount [simp]: "steady z (snd (recalculateEntryCount n c z))"
  by (simp add: recalculateEntryCount_def Let_def steady_def mac_exclusive_def)

lemma steady_recalculateEntryCountIsCertain [simp]:
  "steady z (recalculateEntryCountIsCertain n c z)"
  by (simp add: recalculateEntryCountIsCertain_def Let_def steady_def mac_exclusive_def)

lemma map_header_update:
  "fileHeaderOffset e = fileHeaderOffset (es ! i) \<Longrightarrow>
   map fileHeaderOffset (es[i := e]) = map fileHeaderOffset es"
  by (induction es arbitrary: i) (auto split: nat.splits)

lemma map_header_fold_clearRef [simp]:
  "map fileHeaderOffset (fold clearRef rs es) = map fileHeaderOffset es"
  by (induction rs arbitrary: es) (auto simp: clearRef_def map_header_update)

lemma map_header_fold_clearRefCertain [simp]:
  "map fileHeaderOffset (fold clearRefCertain rs es) = map fileHeaderOffset es"
  by (induction rs arbitrary: es) (auto simp: clearRefCertain_def map_header_update)

lemma length_fold_clearRef [simp]: "length (fold clearRef rs es) = length es"
  by (induction rs arbitrary: es) (auto simp: clearRef_def)

lemma length_fold_clearRefCertain [simp]: "length (fold clearRefCertain rs es) = length es"
  by (induction rs arbitrary: es) (auto simp: clearRefCertain_def)

lemma setAsMacArchive_flags [simp]:
  "isMacArchive (setAsMacArchive n c z)" "\<not> isMaybeMacArchive (setAsMacArchive n c z)"
  by (simp_all add: setAsMacArchive_def recalculateEntryCount_def recalculateEntryCountIsCertain_def
      Let_def split: option.splits)

lemma steady_setAsMacArchive [simp]: "steady z (setAsMacArchive n c z)"
proof -
  have "footerOffset (setAsMacArchive n c z) = footerOffset z"
    "isReading (setAsMacArchive n c z) = isReading z"
    "length (entries (setAsMacArchive n c z)) = length (entries z)"
    "map fileHeaderOffset (entries (setAsMacArchive n c z)) = map fileHeaderOffset (entries z)"
    "firstEntryProps (setAsMacArchive n c z) = firstEntryProps z"
    by (simp_all add: setAsMacArchive_def recalculateEntryCount_def
        recalculateEntryCountIsCertain_def Let_def split: option.splits)
  then show ?thesis by (simp add: steady_def mac_exclusive_def)
qed

lemma setAsNotMacArchive_flags [simp]:
  "isMacArchive (setAsNotMacArchive z) = isMacArchive z"
  "\<not> isMaybeMacArchive (setAsNotMacArchive z)"
  by (simp_all add: setAsNotMacArchive_def Let_def split: option.splits)

lemma steady_setAsNotMacArchive [simp]: "steady z (setAsNotMacArchive z)"
proof -
  have "footerOffset (setAsNotMacArchive z) = footerOffset z"
    "isReading (setAsNotMacArchive z) = isReading z"
    "length (entries (setAsNotMacArchive z)) = length (entries z)"
    "map fileHeaderOffset (entries (setAsNotMacArchive z)) = map fileHeaderOffset (entries z)"
    "firstEntryProps (setAsNotMacArchive z) = firstEntryProps z"
    by (simp_all add: setAsNotMacArchive_def Let_def split: option.splits)
  then show ?thesis by (simp add: steady_def mac_exclusive_def)
qed

lemma steady_chain [simp]:
  "steady z a \<Longrightarrow> steady z (snd (recalculateEntryCount n c a))"
  "steady z a \<Longrightarrow> steady z (recalculateEntryCountIsCertain n c a)"
  "steady z a \<Longrightarrow> steady z (setAsMacArchive n c a)"
  "steady z a \<Longrightarrow> steady z (setAsNotMacArchive a)"
  using steady_trans steady_recalculateEntryCount steady_recalculateEntryCountIsCertain
    steady_setAsMacArchive steady_setAsNotMacArchive by blast+

lemma steady_determineCompressedSize [simp]:
  "steady z (snd (determineCompressedSize ep f z))"
  by (simp add: determineCompressedSize_def Let_def split: sum.splits option.splits)

lemma steady_readEntry_macState [simp]: "steady z (snd (readEntry_macState ep z))"
  by (simp add: readEntry_macState_def Let_def)

lemma readEntry_macState_offset:
  "readEntry_macState ep z = (Inr (Some (ep', e)), z') \<Longrightarrow> \<not> isMacArchive z \<Longrightarrow>
   fileHeaderOffset ep' = fileHeaderOffset ep"
  by (auto simp: readEntry_macState_def Let_def split: if_splits)

lemma readEntryAt_bound:
  "readEntryAt z off = Inr (Some ep) \<Longrightarrow> num (fileHeaderOffset ep) + 30 \<le> num (footerOffset z)"
  by (auto simp: readEntryAt_def Let_def num_def split: sum.splits option.splits if_splits prod.splits)

lemma evolves_refl [simp]: "evolves z z"
  by (simp add: evolves_def)

lemma take_take_map:
  assumes "take m ys = xs" "take n zs = ys" "m \<le> n"
  shows "take m zs = xs"
proof -
  have "take m (take n zs) = take m zs" using assms(3) by (simp add: min_def)
  with assms(1,2) show ?thesis by simp
qed

lemma evolves_trans:
  assumes "evolves a b" "evolves b c"
  shows "evolves a c"
proof -
  have "take (length (entries a)) (map fileHeaderOffset (entries c))
      = map fileHeaderOffset (entries a)"
    using assms take_take_map [of "length (entries a)" "map fileHeaderOffset (entries b)"
        "map fileHeaderOffset (entries a)" "length (entries b)" "map fileHeaderOffset (entries c)"]
    by (simp add: evolves_def)
  then show ?thesis using assms unfolding evolves_def by auto
qed

lemma steady_evolves: "steady z z' \<Longrightarrow> evolves z z'"
  by (simp add: steady_def evolves_def)

lemma steady_readEntry_next [simp]: "steady z (snd (readEntry_next z))"
proof (cases "firstEntryProps z")
  case None
  then show ?thesis
    by (simp add: readEntry_next_def Let_def split: sum.splits option.splits)
next
  case (Some e)
  then show ?thesis
    by (simp add: readEntry_next_def steady_def mac_exclusive_def)
qed

lemma toEntry_fields [simp]:
  "fileHeaderOffset (toEntry p) = fileHeaderOffset p"
  "compressedSize (toEntry p) = compressedSize p"
  by (simp_all add: toEntry_def EntryBase.extend_def EntryBase.truncate_def)

lemma validateAndDecodeEntry_offset:
  "validateAndDecodeEntry ext z ep = Inr entry \<Longrightarrow> fileHeaderOffset entry = fileHeaderOffset ep"
  by (auto simp: validateAndDecodeEntry_def decodeEntry_def Let_def split: sum.splits if_splits)

lemma uncertainUncompressedSize_offset [simp]:
  "fileHeaderOffset (uncertainUncompressedSize ep) = fileHeaderOffset ep"
  by (simp add: uncertainUncompressedSize_def Let_def)

lemma evolves_determineCompressedSize [simp]:
  "evolves z (snd (determineCompressedSize ep f z))"
  by (rule steady_evolves) simp

lemma steady_readEntry_compressed [simp]: "steady z (snd (readEntry_compressed ep f z))"
proof -
  have d: "steady z (snd (determineCompressedSize ep f z))" by simp
  have u: "steady z a \<Longrightarrow> steady z (a\<lparr>compressedSizesAreCertain := True\<rparr>)" for a
    by (simp add: steady_def mac_exclusive_def)
  show ?thesis
    using d u
    by (cases "determineCompressedSize ep f z")
       (auto simp: readEntry_compressed_def split: sum.splits)
qed

lemma evolves_readEntry_store [simp]: "evolves z (snd (readEntry_store ext ep f e z))"
  by (simp add: readEntry_store_def Let_def evolves_def mac_exclusive_def
      split: sum.splits option.splits)

lemma readEntry_store_entry:
  "readEntry_store ext ep f e z = (Inr (Some i), z') \<Longrightarrow>
   i = length (entries z) \<and> i < length (entries z')
   \<and> fileHeaderOffset (entries z' ! i) = fileHeaderOffset ep"
  by (auto simp: readEntry_store_def Let_def validateAndDecodeEntry_offset nth_append
      split: sum.splits option.splits if_splits)

lemma evolves_readEntry_finish [simp]: "evolves z (snd (readEntry_finish ext ep e z))"
proof -
  let ?f = "num (fileHeaderOffset ep) + 30 + len (filename ep)
            + int (length (extraFields ep)) * MAC_LFH_EXTRA_FIELDS_LENGTH"
  obtain r z1 where c: "readEntry_compressed ep ?f z = (r, z1)" by (cases "readEntry_compressed ep ?f z")
  have s: "evolves z z1" using steady_readEntry_compressed [of z ep ?f] c
    by (simp add: steady_evolves)
  show ?thesis
  proof (cases r)
    case (Inl x)
    with c s show ?thesis by (simp add: readEntry_finish_def Let_def)
  next
    case (Inr ep1)
    have "evolves z1 (snd (readEntry_store ext ep1 ?f e z1))" by simp
    with s have "evolves z (snd (readEntry_store ext ep1 ?f e z1))" by (rule evolves_trans)
    with c Inr show ?thesis by (simp add: readEntry_finish_def Let_def)
  qed
qed

lemma evolves_readEntry_impl [simp]: "evolves z (snd (readEntry_impl ext z))"
proof -
  obtain r z1 where n: "readEntry_next z = (r, z1)" by (cases "readEntry_next z")
  have s: "evolves z z1" using steady_readEntry_next [of z] n by (simp add: steady_evolves)
  have f: "evolves z (snd (readEntry_finish ext ep e z1))" for ep e
    using s evolves_readEntry_finish by (rule evolves_trans)
  show ?thesis
    using n s f
    by (auto simp: readEntry_impl_def split: sum.splits option.splits prod.splits)
qed

lemma evolves_readEntry [simp]: "evolves z (snd (readEntry ext z))"
proof (cases "isReading z")
  case True
  then show ?thesis by (simp add: readEntry_def readEntry_begin_def)
next
  case False
  have "evolves (z\<lparr>isReading := True\<rparr>) (snd (readEntry_impl ext (z\<lparr>isReading := True\<rparr>)))"
    by simp
  with False show ?thesis
    by (simp add: readEntry_def readEntry_begin_def Let_def evolves_def mac_exclusive_def)
qed

lemma steady_update:
  "fileHeaderOffset e = fileHeaderOffset (entries z ! i) \<Longrightarrow>
   steady z (z\<lparr>entries := (entries z)[i := e]\<rparr>)"
  by (simp add: steady_def mac_exclusive_def map_header_update)

lemma steady_openReadStream_data:
  assumes "fileHeaderOffset this = fileHeaderOffset (entries z ! i)"
  shows "steady z (snd (openReadStream_data i this s buffer z))"
proof -
  have u: "steady z (z\<lparr>entries := (entries z)[i := this\<lparr>fileDataOffset := d\<rparr>]\<rparr>)" for d
    using assms by (simp add: steady_update)
  have n: "steady z (setAsNotMacArchive (z\<lparr>entries := (entries z)[i := this\<lparr>fileDataOffset := d\<rparr>]\<rparr>))"
    for d
    using u by (rule steady_chain)
  have r: "steady z a \<Longrightarrow> steady z (a\<lparr>reader := x\<rparr>)" for a x
    by (simp add: steady_def mac_exclusive_def)
  show ?thesis
    using u n r
    by (simp add: openReadStream_data_def Let_def split: sum.splits)
qed

lemma steady_openReadStream [simp]: "steady z (snd (openReadStream i options z))"
  by (simp add: openReadStream_def Let_def steady_openReadStream_data split: sum.splits)

lemma steady_vus_transform [simp]: "steady z (snd (snd (vus_transform n vs z)))"
proof -
  have u: "steady z (z\<lparr>entries := (entries z)[i := (entries z ! i)\<lparr>uncompressedSize := u\<rparr>]\<rparr>)"
    for u i
    by (simp add: steady_update)
  have m: "steady z (setAsMacArchive a b
             (z\<lparr>entries := (entries z)[i := (entries z ! i)\<lparr>uncompressedSize := u\<rparr>]\<rparr>))"
    for u i a b
    using u by (rule steady_chain)
  show ?thesis
    using u m by (simp add: vus_transform_def Let_def)
qed

lemma steady_vus_flush [simp]: "steady z (snd (snd (vus_flush vs z)))"
  by (simp add: vus_flush_def Let_def steady_def mac_exclusive_def map_header_update
      split: option.splits)

lemma evolves_zip_step [simp]: "evolves z (zip_step ext z c)"
proof (cases c)
  case (ReaderCall rc)
  then show ?thesis by (simp add: evolves_def mac_exclusive_def)
qed (simp_all add: steady_evolves)

lemma evolves_zip_run [simp]: "evolves z (zip_run ext calls z)"
proof -
  have "evolves a z \<Longrightarrow> evolves a (foldl (zip_step ext) z calls)" for a
  proof (induction calls arbitrary: z)
    case Nil
    then show ?case by simp
  next
    case (Cons c calls)
    have "evolves a (zip_step ext z c)"
      using Cons.prems evolves_zip_step by (rule evolves_trans)
    then show ?case using Cons.IH by simp
  qed
  then show ?thesis by (simp add: zip_run_def)
qed

lemma anchoring_Zip_new [simp]: "anchoring (Zip_new rd sz options)"
  by (simp add: anchoring_def Zip_new_def)

lemma anchoring_locateEocdr [simp]: "anchoring z \<Longrightarrow> anchoring (snd (locateEocdr z))"
  by (simp add: locateEocdr_def anchoring_def Let_def split: sum.splits option.splits)

lemma anchoring_parseEocdr [simp]: "anchoring z \<Longrightarrow> anchoring (snd (parseEocdr ext b z))"
  by (simp add: parseEocdr_def anchoring_def Let_def)

lemma anchoring_parseZip64Eocdr [simp]: "anchoring z \<Longrightarrow> anchoring (snd (parseZip64Eocdr z))"
  by (simp add: parseZip64Eocdr_def anchoring_def Let_def split: sum.splits)

lemma anchoring_anchored: "anchoring z \<Longrightarrow> anchored z"
  by (simp add: anchoring_def anchored_def mac_exclusive_def first_entry_ok_def)

lemma lcd_search_props:
  "lcd_search z off a = (r, z') \<Longrightarrow>
   footerOffset z' = footerOffset z \<and> isMaybeMacArchive z' = isMaybeMacArchive z
   \<and> firstEntryProps z' = firstEntryProps z \<and> isReading z' = isReading z
   \<and> (\<forall>e. r = Inr (Some e) \<longrightarrow> num (fileHeaderOffset e) + 30 \<le> num (footerOffset z))"
proof (induction z off a rule: lcd_search.induct)
  case (1 z offset a)
  show ?case
  proof (cases "offset > a")
    case False
    with "1.prems" show ?thesis by (auto simp: lcd_search.simps [of z offset a])
  next
    case True
    show ?thesis
    proof (cases "readEntryAt z offset")
      case (Inl e)
      with True "1.prems" show ?thesis by (auto simp: lcd_search.simps [of z offset a])
    next
      case (Inr oe)
      show ?thesis
      proof (cases oe)
        case None
        with True Inr "1.prems" have "lcd_search z (offset - FOUR_GIB) a = (r, z')"
          by (simp add: lcd_search.simps [of z offset a])
        with "1.IH" [OF True Inr None] show ?thesis by simp
      next
        case (Some e)
        with True Inr "1.prems" readEntryAt_bound [of z offset e] show ?thesis
          by (auto simp: lcd_search.simps [of z offset a] split: if_splits)
      qed
    qed
  qed
qed

lemma recalculateEntryCount_frame [simp]:
  "footerOffset (snd (recalculateEntryCount n c z)) = footerOffset z"
  "isMaybeMacArchive (snd (recalculateEntryCount n c z)) = isMaybeMacArchive z"
  "isMacArchive (snd (recalculateEntryCount n c z)) = isMacArchive z"
  "firstEntryProps (snd (recalculateEntryCount n c z)) = firstEntryProps z"
  "isReading (snd (recalculateEntryCount n c z)) = isReading z"
  by (simp_all add: recalculateEntryCount_def Let_def)

lemma anchored_lcd_found:
  assumes "anchoring z"
    "num (fileHeaderOffset e) + 30 \<le> num (footerOffset z)"
  shows "anchored (snd (lcd_found e c z))"
  using assms
  by (simp add: lcd_found_def Let_def anchored_def anchoring_def mac_exclusive_def
      first_entry_ok_def)

lemma anchored_lcd_locate:
  assumes "anchoring z"
    and "\<forall>e. e0 = Some e \<longrightarrow> num (fileHeaderOffset e) + 30 \<le> num (footerOffset z)"
  shows "anchored (snd (lcd_locate e0 a c z))"
proof -
  define searched where "searched =
            (case e0 of
               Some entry \<Rightarrow> (Inr (Some entry), z)
             | None \<Rightarrow>
                 let offset0 = num (footerOffset z)
                               - max (num (centralDirectorySize z)) (num (entryCount z) * CDH_MIN_LENGTH)
                 in
                 if js_rem offset0 FOUR_GIB < num (centralDirectoryOffset z) \<and> offset0 < FOUR_GIB
                 then (Inl (Err ''Inconsistent Central Directory size and entry count''), z)
                 else
                   let offset1 = (if js_rem offset0 FOUR_GIB < num (centralDirectoryOffset z)
                                  then offset0 - FOUR_GIB else offset0);
                       offset2 = floor_div offset1 FOUR_GIB * FOUR_GIB
                                 + num (centralDirectoryOffset z)
                   in lcd_search z offset2 a)"
  obtain r z1 where s: "searched = (r, z1)" by (cases searched)
  have p: "footerOffset z1 = footerOffset z \<and> isMaybeMacArchive z1 = isMaybeMacArchive z
     \<and> firstEntryProps z1 = firstEntryProps z \<and> isReading z1 = isReading z
     \<and> (\<forall>e. r = Inr (Some e) \<longrightarrow> num (fileHeaderOffset e) + 30 \<le> num (footerOffset z))"
  proof (cases e0)
    case (Some e)
    with s assms(2) show ?thesis by (auto simp: searched_def)
  next
    case None
    with s show ?thesis
      by (auto simp: searched_def Let_def split: if_splits dest: lcd_search_props)
  qed
  have l: "lcd_locate e0 a c z =
      (case searched of
           (Inl e, z1) \<Rightarrow> (Inl e, z1)
         | (Inr None, z1) \<Rightarrow>
             if entryCount z1 \<noteq> Some 0 \<or> centralDirectorySize z1 \<noteq> Some 0
             then (Inl (Err ''Cannot locate Central Directory''), z1)
             else (Inr (), z1)
         | (Inr (Some entry), z1) \<Rightarrow> lcd_found entry c z1)"
    by (simp add: lcd_locate_def searched_def)
  have a1: "anchored z1"
    using p assms(1) by (simp add: anchoring_def anchored_def mac_exclusive_def first_entry_ok_def)
  show ?thesis
  proof (cases r)
    case (Inl x)
    with l s a1 show ?thesis by simp
  next
    case (Inr oe)
    show ?thesis
    proof (cases oe)
      case None
      with l s a1 Inr show ?thesis by simp
    next
      case (Some e)
      have "anchored (snd (lcd_found e c z1))"
        using p assms(1) Inr Some by (intro anchored_lcd_found) (auto simp: anchoring_def)
      with l s Inr Some show ?thesis by simp
    qed
  qed
qed

lemma anchoring_lcd_adjust:
  "anchoring z \<Longrightarrow> anchoring (fst (lcd_adjust z))"
  by (simp add: lcd_adjust_def Let_def anchoring_def)

lemma anchored_lcd_probe:
  assumes "anchoring z2"
  shows "anchored (snd (lcd_probe c z2))"
proof -
  have loc: "anchored (snd (lcd_locate e0 a c z2))"
    if "\<forall>e. e0 = Some e \<longrightarrow> num (fileHeaderOffset e) + 30 \<le> num (footerOffset z2)" for e0 a
    using assms that by (rule anchored_lcd_locate)
  have first: "anchored (z2\<lparr>firstEntryProps := Some e\<rparr>)"
    if "readEntryAt z2 off = Inr (Some e)" for e off
    using assms readEntryAt_bound [OF that]
    by (simp add: anchored_def anchoring_def mac_exclusive_def first_entry_ok_def)
  show ?thesis
  proof (cases "isMacArchive z2")
    case True
    then show ?thesis using loc [of None] by (simp add: lcd_probe_def)
  next
    case False
    show ?thesis
    proof (cases "readEntryAt z2 (num (centralDirectoryOffset z2))")
      case (Inl e)
      with False show ?thesis using anchoring_anchored [OF assms] by (simp add: lcd_probe_def)
    next
      case (Inr entry)
      show ?thesis
      proof (cases entry)
        case None
        with False Inr show ?thesis using loc [of None] by (simp add: lcd_probe_def)
      next
        case (Some e)
        from Inr Some have b: "num (fileHeaderOffset e) + 30 \<le> num (footerOffset z2)"
          by (auto dest: readEntryAt_bound)
        from Inr Some have "anchored (z2\<lparr>firstEntryProps := Some e\<rparr>)" by (auto intro: first)
        with False Inr Some b show ?thesis
          using anchoring_anchored [OF assms] loc [of "Some e"] by (simp add: lcd_probe_def)
      qed
    qed
  qed
qed

lemma anchored_locateCentralDirectory:
  assumes "anchoring z"
  shows "anchored (snd (locateCentralDirectory z))"
  using anchoring_anchored [OF assms] anchored_lcd_probe [OF anchoring_lcd_adjust [OF assms]]
  by (simp add: locateCentralDirectory_def Let_def)

lemma init_states_anchored: "anchoring z \<Longrightarrow> \<forall>s\<in>set (init_states ext z). anchored s"
proof -
  assume a0: "anchoring z"
  obtain r1 z1 where l: "locateEocdr z = (r1, z1)" by (cases "locateEocdr z")
  have a1: "anchoring z1" using anchoring_locateEocdr [OF a0] l by simp
  show ?thesis
  proof (cases r1)
    case (Inl e)
    with l a0 a1 show ?thesis by (simp add: init_states_def anchoring_anchored)
  next
    case (Inr buf)
    obtain r2 z2 where p: "parseEocdr ext buf z1 = (r2, z2)" by (cases "parseEocdr ext buf z1")
    have a2: "anchoring z2" using anchoring_parseEocdr [OF a1, of ext buf] p by simp
    show ?thesis
    proof (cases r2)
      case (Inl e)
      with l Inr p a0 a1 a2 show ?thesis by (simp add: init_states_def anchoring_anchored)
    next
      case r2: (Inr u)
      obtain r3 z3 where q: "(if isZip64 z2 = Some True then parseZip64Eocdr z2 else (Inr (), z2)) = (r3, z3)"
        by (cases "if isZip64 z2 = Some True then parseZip64Eocdr z2 else (Inr (), z2)")
      have a3: "anchoring z3"
      proof (cases "isZip64 z2 = Some True")
        case True
        with q have "z3 = snd (parseZip64Eocdr z2)" by simp
        then show ?thesis using anchoring_parseZip64Eocdr [OF a2] by simp
      next
        case False
        with q a2 show ?thesis by simp
      qed
      show ?thesis
      proof (cases r3)
        case (Inl e)
        with l Inr p r2 q a0 a1 a2 a3 show ?thesis
          by (simp add: init_states_def anchoring_anchored)
      next
        case r3: (Inr u3)
        obtain r4 z4 where c: "locateCentralDirectory z3 = (r4, z4)"
          by (cases "locateCentralDirectory z3")
        have a4: "anchored z4" using anchored_locateCentralDirectory [OF a3] c by simp
        then have a5: "anchored (z4\<lparr>entryCursor := x\<rparr>)" for x
          by (auto simp: anchored_def mac_exclusive_def first_entry_ok_def split: option.splits)
        from l Inr p r2 q r3 c a0 a1 a2 a3 a4 a5 show ?thesis
          by (cases r4) (simp_all add: init_states_def anchoring_anchored)
      qed
    qed
  qed
qed

lemma init_last: "snd (init ext z) = last (init_states ext z)"
  by (simp add: init_def init_states_def split: prod.splits sum.splits)

lemma init_anchored: "anchoring z \<Longrightarrow> anchored (snd (init ext z))"
proof -
  assume "anchoring z"
  then have "\<forall>s\<in>set (init_states ext z). anchored s" by (rule init_states_anchored)
  moreover have "init_states ext z \<noteq> []"
    by (simp add: init_states_def split: prod.splits sum.splits)
  ultimately show ?thesis by (simp add: init_last)
qed

lemma anchored_evolves: "anchored z \<Longrightarrow> evolves z z' \<Longrightarrow> mac_exclusive z' \<and> first_entry_ok z'"
  by (auto simp: anchored_def evolves_def first_entry_ok_def split: option.splits)

lemma fold_clearRefCertain_fields:
  "i < length es \<Longrightarrow>
   fileDataOffset (fold clearRefCertain rs es ! i) = fileDataOffset (es ! i)
   \<and> compressedSize (fold clearRefCertain rs es ! i) = compressedSize (es ! i)"
proof (induction rs arbitrary: es)
  case Nil
  then show ?case by simp
next
  case (Cons r rs)
  have "length (clearRefCertain r es) = length es" by (simp add: clearRefCertain_def)
  with Cons.prems have "i < length (clearRefCertain r es)" by simp
  from Cons.IH [OF this] Cons.prems show ?case
    by (simp add: clearRefCertain_def nth_list_update)
qed

lemma setAsNotMacArchive_entry:
  "i < length (entries z) \<Longrightarrow>
   fileDataOffset (entries (setAsNotMacArchive z) ! i) = fileDataOffset (entries z ! i)
   \<and> compressedSize (entries (setAsNotMacArchive z) ! i) = compressedSize (entries z ! i)
   \<and> footerOffset (setAsNotMacArchive z) = footerOffset z"
  by (simp add: setAsNotMacArchive_def Let_def fold_clearRefCertain_fields split: option.splits)

lemma openReadStream_data_Inr:
  assumes "openReadStream_data i this s buffer z = (Inr os, z')" "i < length (entries z)"
    "compressedSize this \<noteq> 0"
  shows "\<exists>d. fileDataOffset (entries z' ! i) = Some d
             \<and> d + compressedSize this \<le> num (footerOffset z')
             \<and> compressedSize (entries z' ! i) = compressedSize this"
proof -
  define d where
    "d = num (fileHeaderOffset this) + 30 + readUInt16LE buffer 26 + readUInt16LE buffer 28"
  define z1 where "z1 = z\<lparr>entries := (entries z)[i := this\<lparr>fileDataOffset := Some d\<rparr>]\<rparr>"
  define m where "m =
            (readUInt32LE buffer 14 = 0 \<and> readUInt32LE buffer 18 = 0 \<and> readUInt32LE buffer 22 = 0
             \<and> readUInt16LE buffer 26 = filenameLength this
             \<and> readUInt16LE buffer 28 = int (length (extraFields this)) * MAC_LFH_EXTRA_FIELDS_LENGTH)"
  define z2 where "z2 = (if \<not> isMacArchive z1 \<and> isMaybeMacArchive z1 \<and> \<not> m
                  then setAsNotMacArchive z1 else z1)"
  define sr where "sr = createReadStream (d + s_start s) (s_end s - s_start s) (reader z2)"
  define z3 where "z3 = z2\<lparr>reader := snd sr\<rparr>"
  have eq: "openReadStream_data i this s buffer z =
     (if isMacArchive z1 \<and> \<not> m
      then (Inl (Err ''Misidentified Mac OS Archive Utility ZIP''), z1)
      else
        if compressedSize this \<noteq> 0 \<and> d + compressedSize this > num (footerOffset z2)
        then (Inl (ErrFileDataOverflowsBounds d (compressedSize this) (footerOffset z2)), z2)
        else
          (case fst sr of
                Inl e \<Rightarrow> (Inl e, z3)
              | Inr stream \<Rightarrow>
                  (Inr \<lparr>os_source = stream, os_stages = pipeline_stages i this s z3\<rparr>, z3)))"
    unfolding openReadStream_data_def Let_def d_def z1_def m_def z2_def sr_def z3_def
    by (rule refl)
  have e1: "i < length (entries z1)" "fileDataOffset (entries z1 ! i) = Some d"
    "compressedSize (entries z1 ! i) = compressedSize this" "footerOffset z1 = footerOffset z"
    using assms(2) by (simp_all add: z1_def)
  have e2: "fileDataOffset (entries z2 ! i) = Some d"
    "compressedSize (entries z2 ! i) = compressedSize this"
    using e1 setAsNotMacArchive_entry [OF e1(1)] by (simp_all add: z2_def)
  have e3: "entries z3 = entries z2" "footerOffset z3 = footerOffset z2"
    by (simp_all add: z3_def)
  from assms(1) have z': "z' = z3"
    and b: "\<not> (compressedSize this \<noteq> 0 \<and> d + compressedSize this > num (footerOffset z2))"
    unfolding eq by (auto split: if_splits sum.splits)
  from z' b e2 e3 assms(3) show ?thesis by auto
qed

lemma openReadStream_data_bound:
  assumes "openReadStream i options z = (Inr os, z')" "i < length (entries z)"
    "compressedSize (entries z ! i) \<noteq> 0"
  shows "\<exists>d. fileDataOffset (entries z' ! i) = Some d
             \<and> d + compressedSize (entries z' ! i) \<le> num (footerOffset z')"
proof -
  from assms(1) obtain s buffer where
    "openReadStream_data i (entries z ! i) s buffer z = (Inr os, z')"
    by (auto simp: openReadStream_def Let_def split: sum.splits if_splits)
  from openReadStream_data_Inr [OF this assms(2,3)] show ?thesis by auto
qed

lemma reachable_anchored:
  "mac_exclusive (zip_run ext calls (snd (init ext (Zip_new rd sz options))))
   \<and> first_entry_ok (zip_run ext calls (snd (init ext (Zip_new rd sz options))))"
  using init_anchored [OF anchoring_Zip_new] evolves_zip_run by (rule anchored_evolves)

subsection \<open>A call with suspensions and the call that nothing interrupts\<close>

lemma read_during_quiet [simp]:
  "read_during ext [] [] start length' z = (reader_read (reader z) start length', z)"
  by (simp add: read_during_def reader_read_def bufferReader_read_def zip_run_def Let_def)

lemma readEntryAt_during_quiet [simp]:
  "readEntryAt_during ext quiet offset z = (readEntryAt z offset, z)"
  by (simp add: readEntryAt_during_def readEntryAt_def quiet_def Let_def
      split: sum.splits option.splits prod.splits)

lemma determineCompressedSize_during_quiet [simp]:
  "determineCompressedSize_during ext quiet ep f z = determineCompressedSize ep f z"
  by (simp add: determineCompressedSize_during_def determineCompressedSize_def quiet_def Let_def
      split: sum.splits option.splits)

lemma zip_run_Nil [simp]: "zip_run ext [] z = z"
  by (simp add: zip_run_def)

lemma readEntry_next_during_quiet [simp]:
  "readEntry_next_during ext quiet z = readEntry_next z"
  by (simp add: readEntry_next_during_def readEntry_next_def readEntry_resumed_def Let_def
        quiet_def [THEN arg_cong, of after_entry]
      split: sum.splits option.splits)


lemma readEntry_during_quiet: "readEntry_during ext quiet z = readEntry ext z"
proof -
  have c: "readEntry_compressed_during ext quiet ep f z = readEntry_compressed ep f z" for ep f z
    by (cases "determineCompressedSize ep f z")
       (simp add: readEntry_compressed_during_def readEntry_compressed_def Let_def
          quiet_def [THEN arg_cong, of after_size] split: sum.splits)
  have f: "readEntry_finish_during ext quiet ep e z = readEntry_finish ext ep e z" for ep e z
    by (simp add: readEntry_finish_during_def readEntry_finish_def c)
  have i: "readEntry_impl_during ext quiet z = readEntry_impl ext z" for z
    by (simp add: readEntry_impl_during_def readEntry_impl_def f
        split: prod.splits sum.splits option.splits)
  show ?thesis
    by (simp add: readEntry_during_def readEntry_def i Let_def
        quiet_def [THEN arg_cong, of after_readEntry] split: sum.splits)
qed

subsection \<open>Frames of a call with suspensions\<close>

lemma evolves_reader [simp]: "evolves z (z\<lparr>reader := r\<rparr>)"
  by (simp add: evolves_def mac_exclusive_def)

lemma evolves_chain:
  "evolves z a \<Longrightarrow> evolves z (zip_run ext calls a)"
  "evolves z a \<Longrightarrow> evolves z (a\<lparr>reader := r\<rparr>)"
  using evolves_trans evolves_zip_run evolves_reader by blast+

lemma evolves_read_during [simp]: "evolves z (snd (read_during ext p q start l z))"
  by (simp add: read_during_def Let_def evolves_chain)

lemma footer_evolves: "evolves z z' \<Longrightarrow> footerOffset z' = footerOffset z"
  by (simp add: evolves_def)

lemma evolves_readEntryAt_during [simp]: "evolves z (snd (readEntryAt_during ext s off z))"
proof -
  obtain r1 z1 where a: "read_during ext (reading_header s) (after_header s) off CDH_MIN_LENGTH z = (r1, z1)"
    by (cases "read_during ext (reading_header s) (after_header s) off CDH_MIN_LENGTH z")
  have e1: "evolves z z1" using evolves_read_during [of z ext "reading_header s" "after_header s" off CDH_MIN_LENGTH] a
    by simp
  have e2: "evolves z x" if "read_during ext p q start l z1 = (r, x)" for p q start l r x
    using e1 evolves_read_during [of z1 ext p q start l] that by (auto intro: evolves_trans)
  show ?thesis
    using a e1
    by (auto simp: readEntryAt_during_def Let_def dest: e2
        split: sum.splits option.splits prod.splits)
qed

lemma readEntryAt_during_bound:
  assumes "readEntryAt_during ext s off z = (Inr (Some ep), z')"
  shows "num (fileHeaderOffset ep) + 30 \<le> num (footerOffset z')"
  using assms
  by (auto simp: readEntryAt_during_def Let_def num_def
      split: sum.splits option.splits if_splits prod.splits)


lemma evolves_findDataDescriptor_during [simp]:
  "evolves z (snd (findDataDescriptor_during ext ps ep fde z))"
proof (induction ps arbitrary: fde z)
  case Nil
  then show ?case by simp
next
  case (Cons p ps)
  obtain r z1 where a: "read_during ext (fst p) (snd p) fde 20 z = (r, z1)"
    by (cases "read_during ext (fst p) (snd p) fde 20 z")
  have e1: "evolves z z1" using evolves_read_during [of z ext "fst p" "snd p" fde 20] a by simp
  have e2: "evolves z (snd (findDataDescriptor_during ext ps ep f z1))" for f
    using e1 Cons.IH by (rule evolves_trans)
  show ?case using a e1 e2 by (auto split: sum.splits)
qed

lemma evolves_steady_chain:
  "evolves z a \<Longrightarrow> evolves z (setAsMacArchive n c a)"
  "evolves z a \<Longrightarrow> evolves z (setAsNotMacArchive a)"
  using evolves_trans steady_evolves steady_setAsMacArchive steady_setAsNotMacArchive by blast+

lemma evolves_determineCompressedSize_during [simp]:
  "evolves z (snd (determineCompressedSize_during ext s ep f z))"
proof -
  obtain r z0 where a: "findDataDescriptor_during ext (descriptor_reads s) ep
      (f + compressedSize ep) z = (r, z0)"
    by (cases "findDataDescriptor_during ext (descriptor_reads s) ep (f + compressedSize ep) z")
  have e: "evolves z z0"
    using evolves_findDataDescriptor_during [of z ext "descriptor_reads s" ep "f + compressedSize ep"] a
    by simp
  show ?thesis
    using a e
    by (auto simp: determineCompressedSize_during_def Let_def evolves_steady_chain
        split: sum.splits option.splits)
qed

lemma determineCompressedSize_during_offset:
  "determineCompressedSize_during ext s ep f z = (Inr (b, ep'), z') \<Longrightarrow>
   fileHeaderOffset ep' = fileHeaderOffset ep"
  by (auto simp: determineCompressedSize_during_def Let_def
      split: sum.splits option.splits if_splits prod.splits)

lemma evolves_readEntry_resumed [simp]: "evolves z (snd (readEntry_resumed ext s z))"
  by (simp add: readEntry_resumed_def Let_def evolves_chain)

lemma readEntry_resumed_bound:
  assumes "readEntry_resumed ext s z = (Inr (Some ep), z')"
  shows "num (fileHeaderOffset ep) + 30 \<le> num (footerOffset z)"
proof -
  obtain z1 where r: "readEntryAt_during ext s (num (entryCursor z)) z = (Inr (Some ep), z1)"
    using assms
    by (cases "readEntryAt_during ext s (num (entryCursor z)) z")
       (auto simp: readEntry_resumed_def Let_def)
  have "footerOffset z1 = footerOffset z"
    using evolves_readEntryAt_during [of z ext s "num (entryCursor z)"] r
    by (simp add: footer_evolves)
  with readEntryAt_during_bound [OF r] show ?thesis by simp
qed

lemma evolves_readEntry_next_during [simp]: "evolves z (snd (readEntry_next_during ext s z))"
proof (cases "firstEntryProps z")
  case (Some e)
  then show ?thesis
    by (simp add: readEntry_next_during_def evolves_def mac_exclusive_def)
next
  case None
  obtain r z1 where a: "readEntry_resumed ext s z = (r, z1)"
    by (cases "readEntry_resumed ext s z")
  have e: "evolves z z1" using evolves_readEntry_resumed [of z ext s] a by simp
  have m: "evolves z (snd (readEntry_macState ep z1))" for ep
    using e steady_readEntry_macState [of z1 ep] by (blast intro: evolves_trans steady_evolves)
  show ?thesis
    using None a e m
    by (auto simp: readEntry_next_during_def Let_def evolves_steady_chain
        split: sum.splits option.splits)
qed

lemma readEntry_next_during_bound:
  assumes "readEntry_next_during ext s z = (Inr (Some (ep, e)), z')"
    and "firstEntryProps z \<noteq> None \<or> \<not> isMacArchive (snd (readEntry_resumed ext s z))"
    and "first_entry_ok z"
  shows "num (fileHeaderOffset ep) + 30 \<le> num (footerOffset z)"
proof (cases "firstEntryProps z")
  case (Some p)
  with assms(1) have "ep = p" by (simp add: readEntry_next_during_def)
  with assms(3) Some show ?thesis by (simp add: first_entry_ok_def)
next
  case None
  with assms(2) have nm: "\<not> isMacArchive (snd (readEntry_resumed ext s z))" by simp
  from None assms(1) obtain ep0 z1 where r: "readEntry_resumed ext s z = (Inr (Some ep0), z1)"
    and m: "readEntry_macState ep0 z1 = (Inr (Some (ep, e)), z')"
    by (auto simp: readEntry_next_during_def Let_def split: sum.splits option.splits if_splits prod.splits)
  from m nm r have "fileHeaderOffset ep = fileHeaderOffset ep0"
    by (simp add: readEntry_macState_offset)
  with readEntry_resumed_bound [OF r] show ?thesis by simp
qed

lemma evolves_readEntry_compressed_during [simp]:
  "evolves z (snd (readEntry_compressed_during ext s ep f z))"
proof -
  have d: "evolves z (zip_run ext (after_size s) (snd (determineCompressedSize_during ext s ep f z)))"
    by (simp add: evolves_chain)
  have u: "evolves z a \<Longrightarrow> evolves z (a\<lparr>compressedSizesAreCertain := True\<rparr>)" for a
    by (simp add: evolves_def mac_exclusive_def)
  show ?thesis
    using d u
    by (auto simp: readEntry_compressed_during_def Let_def split: sum.splits)
qed

lemma readEntry_compressed_during_offset:
  "readEntry_compressed_during ext s ep f z = (Inr ep', z') \<Longrightarrow>
   fileHeaderOffset ep' = fileHeaderOffset ep"
  by (cases "determineCompressedSize_during ext s ep f z")
     (auto simp: readEntry_compressed_during_def Let_def determineCompressedSize_during_offset
      split: if_splits sum.splits prod.splits)

lemma evolves_readEntry_finish_during [simp]:
  "evolves z (snd (readEntry_finish_during ext s ep e z))"
proof -
  let ?f = "num (fileHeaderOffset ep) + 30 + len (filename ep)
            + int (length (extraFields ep)) * MAC_LFH_EXTRA_FIELDS_LENGTH"
  obtain r z1 where c: "readEntry_compressed_during ext s ep ?f z = (r, z1)"
    by (cases "readEntry_compressed_during ext s ep ?f z")
  have t: "evolves z z1" using evolves_readEntry_compressed_during [of z ext s ep ?f] c by simp
  show ?thesis
  proof (cases r)
    case (Inl x)
    with c t show ?thesis by (simp add: readEntry_finish_during_def Let_def)
  next
    case (Inr ep1)
    have "evolves z1 (snd (readEntry_store ext ep1 ?f e z1))" by simp
    with t have "evolves z (snd (readEntry_store ext ep1 ?f e z1))" by (rule evolves_trans)
    with c Inr show ?thesis by (simp add: readEntry_finish_during_def Let_def)
  qed
qed

lemma readEntry_finish_during_entry:
  assumes "readEntry_finish_during ext s ep e z = (Inr (Some i), z')"
  shows "i < length (entries z') \<and> fileHeaderOffset (entries z' ! i) = fileHeaderOffset ep"
proof -
  let ?f = "num (fileHeaderOffset ep) + 30 + len (filename ep)
            + int (length (extraFields ep)) * MAC_LFH_EXTRA_FIELDS_LENGTH"
  from assms obtain ep1 z1 where c: "readEntry_compressed_during ext s ep ?f z = (Inr ep1, z1)"
    and t: "readEntry_store ext ep1 ?f e z1 = (Inr (Some i), z')"
    by (auto simp: readEntry_finish_during_def Let_def split: prod.splits sum.splits)
  from readEntry_store_entry [OF t] readEntry_compressed_during_offset [OF c] show ?thesis by auto
qed

lemma evolves_readEntry_impl_during [simp]: "evolves z (snd (readEntry_impl_during ext s z))"
proof -
  obtain r z1 where n: "readEntry_next_during ext s z = (r, z1)"
    by (cases "readEntry_next_during ext s z")
  have t: "evolves z z1" using evolves_readEntry_next_during [of z ext s] n by simp
  have f: "evolves z (snd (readEntry_finish_during ext s ep e z1))" for ep e
    using t evolves_readEntry_finish_during by (rule evolves_trans)
  show ?thesis
    using n t f
    by (auto simp: readEntry_impl_during_def split: sum.splits option.splits prod.splits)
qed

lemma evolves_readEntry_during [simp]: "evolves z (snd (readEntry_during ext s z))"
proof (cases "isReading z")
  case True
  then show ?thesis by (simp add: readEntry_during_def readEntry_begin_def)
next
  case False
  let ?z1 = "z\<lparr>isReading := True\<rparr>"
  have "evolves ?z1 (zip_run ext (after_readEntry s) (snd (readEntry_impl_during ext s ?z1)))"
    by (simp add: evolves_chain)
  with False show ?thesis
    by (simp add: readEntry_during_def readEntry_begin_def Let_def evolves_def mac_exclusive_def)
qed

lemma evolves_archive_step [simp]: "evolves z (archive_step ext z ev)"
  by (cases ev) simp_all

lemma evolves_archive_run [simp]: "evolves z (archive_run ext events z)"
proof -
  have "evolves a z \<Longrightarrow> evolves a (foldl (archive_step ext) z events)" for a
  proof (induction events arbitrary: z)
    case Nil
    then show ?case by simp
  next
    case (Cons ev events)
    have "evolves a (archive_step ext z ev)"
      using Cons.prems evolves_archive_step by (rule evolves_trans)
    then show ?case using Cons.IH by simp
  qed
  then show ?thesis by (simp add: archive_run_def)
qed

lemma archive_anchored:
  "mac_exclusive (archive_run ext events (snd (init ext (Zip_new rd sz options))))
   \<and> first_entry_ok (archive_run ext events (snd (init ext (Zip_new rd sz options))))"
  using anchored_evolves [OF init_anchored [OF anchoring_Zip_new] evolves_archive_run] .

lemma evolves_header:
  assumes "evolves z z'" "i < length (entries z)"
  shows "fileHeaderOffset (entries z' ! i) = fileHeaderOffset (entries z ! i)"
proof -
  from assms(1) have t: "take (length (entries z)) (map fileHeaderOffset (entries z'))
      = map fileHeaderOffset (entries z)" and l: "length (entries z) \<le> length (entries z')"
    by (simp_all add: evolves_def)
  have "take (length (entries z)) (map fileHeaderOffset (entries z')) ! i
      = map fileHeaderOffset (entries z') ! i"
    using assms(2) by simp
  with t assms(2) l show ?thesis by simp
qed

lemma readEntry_during_header_bound:
  assumes "readEntry_during ext s z = (Inr (Some i), z')"
    and "first_entry_ok z"
    and "firstEntryProps z \<noteq> None
         \<or> \<not> isMacArchive (snd (readEntry_resumed ext s (z\<lparr>isReading := True\<rparr>)))"
  shows "i < length (entries z')
         \<and> num (fileHeaderOffset (entries z' ! i)) + 30 \<le> num (footerOffset z')"
proof -
  from assms(1) have nr: "\<not> isReading z"
    by (auto simp: readEntry_during_def readEntry_begin_def)
  define z1 where "z1 = z\<lparr>isReading := True\<rparr>"
  from assms(1) nr obtain z2 where i: "readEntry_impl_during ext s z1 = (Inr (Some i), z2)"
    and z': "z' = (zip_run ext (after_readEntry s) z2)\<lparr>isReading := False\<rparr>"
    by (cases "readEntry_impl_during ext s z1")
       (auto simp: readEntry_during_def readEntry_begin_def z1_def Let_def)
  from i obtain ep e z3 where n: "readEntry_next_during ext s z1 = (Inr (Some (ep, e)), z3)"
    and f: "readEntry_finish_during ext s ep e z3 = (Inr (Some i), z2)"
    by (auto simp: readEntry_impl_during_def split: if_splits prod.splits sum.splits option.splits)
  have "num (fileHeaderOffset ep) + 30 \<le> num (footerOffset z1)"
    using n assms(2,3)
    by (intro readEntry_next_during_bound [of ext s z1 ep e z3])
       (auto simp: z1_def first_entry_ok_def split: option.splits)
  moreover have "footerOffset z3 = footerOffset z1"
    using evolves_readEntry_next_during [of z1 ext s] n by (simp add: evolves_def)
  moreover have "footerOffset z2 = footerOffset z3"
    using evolves_readEntry_finish_during [of z3 ext s ep e] f by (simp add: evolves_def)
  moreover have r: "evolves z2 (zip_run ext (after_readEntry s) z2)" by simp
  moreover note readEntry_finish_during_entry [OF f]
  ultimately show ?thesis
    using z' evolves_header [OF r, of i] by (simp add: z1_def evolves_def)
qed

lemma archive_run_Nil [simp]: "archive_run ext [] z = z"
  by (simp add: archive_run_def)

text \<open>
  For a call that nothing interrupts, the archive that \<^verbatim>\<open>_readEntry\<close> finds when it
  resumes is the archive at the call.
\<close>

lemma readEntry_resumed_quiet [simp]:
  "readEntry_resumed ext quiet z = (readEntryAt z (num (entryCursor z)), z)"
  by (simp add: readEntry_resumed_def Let_def quiet_def [THEN arg_cong, of after_entry])

lemma readEntry_undisturbed_header_bound:
  assumes "readEntry ext z = (Inr (Some i), z')"
    and "first_entry_ok z"
    and "firstEntryProps z \<noteq> None \<or> \<not> isMacArchive z"
  shows "i < length (entries z')
         \<and> num (fileHeaderOffset (entries z' ! i)) + 30 \<le> num (footerOffset z')"
  using readEntry_during_header_bound [of ext quiet z i z'] assms
  by (simp add: readEntry_during_quiet)

text \<open>
  C6, as the sources have it. On an archive that \<^verbatim>\<open>init\<close> has produced, after any calls,
  and whatever other tasks do while a call of \<^verbatim>\<open>readEntry\<close> is suspended: the entry that
  the call returns has \<open>fileHeaderOffset + 30 \<le> footerOffset\<close>, provided it is the first
  entry kept by \<^verbatim>\<open>init\<close>, or the archive is not flagged as a Mac archive when
  \<^verbatim>\<open>_readEntry\<close> resumes after the read of the header, which is when it tests the flag
  (these are the entries whose header offset \<^verbatim>\<open>_readEntry\<close> does not replace by the file
  cursor). And when \<^verbatim>\<open>openReadStream\<close> succeeds on an entry whose compressed size is not
  0, the file data offset it has stored satisfies
  \<open>fileDataOffset + compressedSize \<le> footerOffset\<close>.
\<close>

theorem entry_offsets_in_bounds:
  "(readEntry_during ext s (archive_run ext events (snd (init ext (Zip_new rd sz options))))
      = (Inr (Some i), z')
      \<and> (firstEntryProps (archive_run ext events (snd (init ext (Zip_new rd sz options)))) \<noteq> None
          \<or> \<not> isMacArchive
                (snd (readEntry_resumed ext s
                   ((archive_run ext events (snd (init ext (Zip_new rd sz options))))
                      \<lparr>isReading := True\<rparr>))))
    \<longrightarrow> i < length (entries z')
        \<and> num (fileHeaderOffset (entries z' ! i)) + 30 \<le> num (footerOffset z'))
   \<and> (openReadStream j options' z = (Inr os, z'') \<and> j < length (entries z)
       \<and> compressedSize (entries z ! j) \<noteq> 0
    \<longrightarrow> (\<exists>d. fileDataOffset (entries z'' ! j) = Some d
             \<and> d + compressedSize (entries z'' ! j) \<le> num (footerOffset z'')))"
proof (intro conjI impI)
  let ?z = "archive_run ext events (snd (init ext (Zip_new rd sz options)))"
  assume a: "readEntry_during ext s ?z = (Inr (Some i), z')
      \<and> (firstEntryProps ?z \<noteq> None
          \<or> \<not> isMacArchive (snd (readEntry_resumed ext s (?z\<lparr>isReading := True\<rparr>))))"
  have f: "first_entry_ok ?z" using archive_anchored [of ext events rd sz options] by simp
  from a have r: "readEntry_during ext s ?z = (Inr (Some i), z')"
    and t: "firstEntryProps ?z \<noteq> None
          \<or> \<not> isMacArchive (snd (readEntry_resumed ext s (?z\<lparr>isReading := True\<rparr>)))"
    by blast+
  from readEntry_during_header_bound [OF r f t]
  show "i < length (entries z')"
    "num (fileHeaderOffset (entries z' ! i)) + 30 \<le> num (footerOffset z')"
    by blast+
next
  assume "openReadStream j options' z = (Inr os, z'') \<and> j < length (entries z)
       \<and> compressedSize (entries z ! j) \<noteq> 0"
  then show "\<exists>d. fileDataOffset (entries z'' ! j) = Some d
             \<and> d + compressedSize (entries z'' ! j) \<le> num (footerOffset z'')"
    using openReadStream_data_bound by blast
qed

text \<open>
  C7. \<^verbatim>\<open>isMacArchive\<close> and \<^verbatim>\<open>isMaybeMacArchive\<close> are never both true: not in the archive
  as constructed, not after any step of \<^verbatim>\<open>init\<close> (locating and parsing the end record,
  the ZIP64 records, locating the central directory), and not after any sequence of
  \<^verbatim>\<open>readEntry\<close>, \<^verbatim>\<open>openReadStream\<close>, stream validation, \<^verbatim>\<open>_setAsMacArchive\<close>,
  \<^verbatim>\<open>_setAsNotMacArchive\<close> and reader steps that follows \<^verbatim>\<open>init\<close>.
\<close>

theorem mac_flags_exclusive:
  "(\<forall>s\<in>set (init_states ext (Zip_new rd sz options)).
      \<not> (isMacArchive s \<and> isMaybeMacArchive s))
   \<and> \<not> (isMacArchive (zip_run ext calls (snd (init ext (Zip_new rd sz options))))
        \<and> isMaybeMacArchive (zip_run ext calls (snd (init ext (Zip_new rd sz options)))))"
proof
  show "\<forall>s\<in>set (init_states ext (Zip_new rd sz options)).
      \<not> (isMacArchive s \<and> isMaybeMacArchive s)"
    using init_states_anchored [OF anchoring_Zip_new, of ext rd sz options]
    by (auto simp: anchored_def mac_exclusive_def)
  show "\<not> (isMacArchive (zip_run ext calls (snd (init ext (Zip_new rd sz options))))
        \<and> isMaybeMacArchive (zip_run ext calls (snd (init ext (Zip_new rd sz options)))))"
    using reachable_anchored [of ext calls rd sz options] by (simp add: mac_exclusive_def)
qed

text \<open>
  C8. A call of \<^verbatim>\<open>readEntry\<close> while the guard of an earlier call is set fails with the
  re-entrancy error and returns the archive exactly as it was, cursor, counter and Mac
  flags included. The guard is set when the first call starts, it stays set through
  \<^verbatim>\<open>_readEntry\<close> and through anything else that happens to the archive meanwhile, so a
  second call made then fails in this way.
\<close>

theorem readEntry_reentrant:
  "(isReading z \<longrightarrow> readEntry ext z = (Inl reentrancy_error, z))
   \<and> (readEntry_begin z = Inr z1 \<longrightarrow>
        isReading z1 \<and> isReading (snd (readEntry_impl ext z1))
        \<and> isReading (zip_run ext calls z1)
        \<and> readEntry ext (zip_run ext calls z1) = (Inl reentrancy_error, zip_run ext calls z1))"
proof (intro conjI impI)
  show r: "readEntry ext z = (Inl reentrancy_error, z)" if "isReading z" for z
    using that by (simp add: readEntry_def readEntry_begin_def)
  assume "readEntry_begin z = Inr z1"
  then show b: "isReading z1" by (auto simp: readEntry_begin_def split: if_splits)
  show "isReading (snd (readEntry_impl ext z1))"
    using b evolves_readEntry_impl [of z1 ext] by (simp add: evolves_def)
  show c: "isReading (zip_run ext calls z1)"
    using b evolves_zip_run [of z1 ext calls] by (simp add: evolves_def)
  show "readEntry ext (zip_run ext calls z1) = (Inl reentrancy_error, zip_run ext calls z1)"
    using c by (rule r)
qed

subsection \<open>Concrete archives\<close>

text \<open>
  Where the bounds fail. An empty stored entry opens although its local file header, in
  an archive of 100 bytes, puts the file data at offset 65566. And on the Mac path
  \<^verbatim>\<open>_readEntry\<close> replaces the header offset of an entry by the file cursor and does not
  compare it with \<^verbatim>\<open>footerOffset\<close> again: in an archive of 140 bytes the second entry gets
  the header offset \<open>2 ^ 32\<close>, and the first one \<^verbatim>\<open>null\<close>.
\<close>

theorem entry_offsets_in_bounds_counterexample:
  "fst (openReadStream 0 None overlong_zip)
     = Inr \<lparr>os_source = \<lparr>stream_id = None, stream_data = []\<rparr>, os_stages = [ValidateCrc32 0]\<rparr>
   \<and> compressedSize (entries (snd (openReadStream 0 None overlong_zip)) ! 0) = 0
   \<and> fileDataOffset (entries (snd (openReadStream 0 None overlong_zip)) ! 0) = Some 65566
   \<and> footerOffset (snd (openReadStream 0 None overlong_zip)) = Some 78
   \<and> isMacArchive (opened truncated_offset_archive)
   \<and> length (entries truncated_offset_zip) = 2
   \<and> fileHeaderOffset (entries truncated_offset_zip ! 0) = None
   \<and> fileHeaderOffset (entries truncated_offset_zip ! 1) = Some 4294967296
   \<and> footerOffset truncated_offset_zip = Some 118"
  by code_simp

text \<open>
  The flag that decides is the one \<^verbatim>\<open>_readEntry\<close> finds when it resumes. \<open>race_archive\<close>
  is flagged as maybe a Mac archive; after its first entry the file cursor is \<open>2 ^ 32\<close>.
  The second call of \<^verbatim>\<open>readEntry\<close>, undisturbed, keeps the header offset 0 that it has
  read and checked. When the archive is flagged as a Mac archive while the call is
  suspended, the same call gives the entry the header offset \<open>2 ^ 32\<close>.
\<close>

lemma readEntry_flag_set_while_suspended:
  "isMaybeMacArchive (opened race_archive) \<and> \<not> isMacArchive (opened race_archive)
   \<and> \<not> isMacArchive race_first \<and> firstEntryProps race_first = None
   \<and> fileCursor race_first = Some 4294967296
   \<and> numEntriesRead race_first = 1 \<and> entryCursor race_first = Some 59
   \<and> fst race_quiet = Inr (Some 1)
   \<and> fileHeaderOffset (entries (snd race_quiet) ! 1) = Some 0
   \<and> fst race_flagged = Inr (Some 1)
   \<and> isMacArchive (snd (readEntry_resumed no_externals flagged (race_first\<lparr>isReading := True\<rparr>)))
   \<and> fileHeaderOffset (entries (snd race_flagged) ! 1) = Some 4294967296
   \<and> footerOffset (snd race_flagged) = Some 118"
  by code_simp

theorem entry_offsets_in_bounds_witness:
  "firstEntryProps (opened commented_archive) = None
   \<and> fst busy_read = Inr (Some 0)
   \<and> \<not> isMacArchive
         (snd (readEntry_resumed no_externals busy
                 ((opened commented_archive)\<lparr>isReading := True\<rparr>)))
   \<and> num (fileHeaderOffset (entries (snd busy_read) ! 0)) + 30
       \<le> num (footerOffset (snd busy_read))
   \<and> fst deflated_read = Inr (Some 0)
   \<and> compressedSize (entries (snd deflated_read) ! 0) = 2
   \<and> (\<exists>d. fileDataOffset (entries (snd deflated_opened) ! 0) = Some d
            \<and> d + compressedSize (entries (snd deflated_opened) ! 0)
                \<le> num (footerOffset (snd deflated_opened)))"
proof -
  let ?rd = "(Reader_new commented_archive)\<lparr>r_isOpen := True\<rparr>"
  let ?sz = "int (length commented_archive)"
  have z: "archive_run no_externals [] (snd (init no_externals (Zip_new ?rd ?sz raw_options)))
             = opened commented_archive"
    by (simp add: opened_def)
  have a: "firstEntryProps (opened commented_archive) = None"
    "fst busy_read = Inr (Some 0)"
    "\<not> isMacArchive
         (snd (readEntry_resumed no_externals busy
                 ((opened commented_archive)\<lparr>isReading := True\<rparr>)))"
    "fst deflated_read = Inr (Some 0)"
    "compressedSize (entries (snd deflated_read) ! 0) = 2"
    "0 < length (entries (snd deflated_read))"
    "fst deflated_opened
       = Inr \<lparr>os_source = \<lparr>stream_id = Some 0, stream_data = [0x03, 0x00]\<rparr>,
              os_stages = [InflateRaw, ValidateUncompressedSize 0, ValidateCrc32 0]\<rparr>"
    by code_simp+
  from a(2) have r: "readEntry_during no_externals busy (opened commented_archive)
      = (Inr (Some 0), snd busy_read)"
    by (simp add: busy_read_def prod_eq_iff)
  define os where "os = \<lparr>os_source = \<lparr>stream_id = Some 0, stream_data = [0x03, 0x00 :: byte]\<rparr>,
              os_stages = [InflateRaw, ValidateUncompressedSize 0, ValidateCrc32 0]\<rparr>"
  from a(7) have o: "openReadStream 0 None (snd deflated_read)
      = (Inr os, snd deflated_opened)"
    by (simp add: deflated_opened_def prod_eq_iff os_def)
  from entry_offsets_in_bounds [of no_externals busy "[]" ?rd ?sz raw_options 0 "snd busy_read"
      0 None "snd deflated_read" os "snd deflated_opened"]
  show ?thesis
    unfolding z using a r o by simp
qed

theorem mac_flags_exclusive_witness:
  "isMaybeMacArchive (opened mac_folder_archive)
   \<and> \<not> isMacArchive (opened mac_folder_archive)
   \<and> \<not> (isMacArchive mac_folder_zip \<and> isMaybeMacArchive mac_folder_zip)"
proof -
  have a: "isMaybeMacArchive (opened mac_folder_archive)"
    "\<not> isMacArchive (opened mac_folder_archive)"
    by code_simp+
  from mac_flags_exclusive [of no_externals "(Reader_new mac_folder_archive)\<lparr>r_isOpen := True\<rparr>"
      "int (length mac_folder_archive)" raw_options "[ReadEntry, OpenReadStream 0 None]"]
  have "\<not> (isMacArchive mac_folder_zip \<and> isMaybeMacArchive mac_folder_zip)"
    by (simp add: mac_folder_zip_def opened_def)
  with a show ?thesis by simp
qed

theorem readEntry_reentrant_witness:
  "\<not> isReading (snd deflated_read)
   \<and> readEntry_begin (snd deflated_read) = Inr ((snd deflated_read)\<lparr>isReading := True\<rparr>)
   \<and> readEntry no_externals
        (zip_run no_externals [OpenReadStream 0 None] ((snd deflated_read)\<lparr>isReading := True\<rparr>))
       = (Inl reentrancy_error,
          zip_run no_externals [OpenReadStream 0 None] ((snd deflated_read)\<lparr>isReading := True\<rparr>))"
proof -
  have a: "\<not> isReading (snd deflated_read)" by code_simp
  then have b: "readEntry_begin (snd deflated_read) = Inr ((snd deflated_read)\<lparr>isReading := True\<rparr>)"
    by (simp add: readEntry_begin_def)
  from readEntry_reentrant [of "snd deflated_read" no_externals
      "(snd deflated_read)\<lparr>isReading := True\<rparr>" "[OpenReadStream 0 None]"] a b
  show ?thesis by simp
qed

end
